theory Spec2Isabelle
  imports Main "HOL-Library.Char_ord" "HOL-Library.List_Lexorder"
begin

section \<open>Python strings\<close>

text \<open>
  A Python \<open>str\<close> is modelled as a \<^typ>\<open>string\<close>; a \<^typ>\<open>char\<close> stands for the code point
  of the same number (the Latin-1 range). The character classes below are those of
  \<^verbatim>\<open>str.isspace\<close>, of \<^verbatim>\<open>\s\<close> and of \<^verbatim>\<open>\w\<close> in a \<^verbatim>\<open>str\<close> pattern, on these code points.
\<close>

definition is_space :: "char \<Rightarrow> bool" where
  "is_space c = (of_char c \<in> set [9, 10, 11, 12, 13, 28, 29, 30, 31, 32, 133, 160 :: nat])"

definition is_word :: "char \<Rightarrow> bool" where
  "is_word c =
     (let n = (of_char c :: nat) in
        (48 \<le> n \<and> n \<le> 57) \<or> (65 \<le> n \<and> n \<le> 90) \<or> n = 95 \<or> (97 \<le> n \<and> n \<le> 122) \<or>
        n = 170 \<or> n = 178 \<or> n = 179 \<or> n = 181 \<or> n = 185 \<or> n = 186 \<or>
        (188 \<le> n \<and> n \<le> 190) \<or> (192 \<le> n \<and> n \<le> 214) \<or> (216 \<le> n \<and> n \<le> 246) \<or>
        248 \<le> n)"

text \<open>\<^verbatim>\<open>str.lower\<close> on one character.\<close>

definition lower_char :: "char \<Rightarrow> char" where
  "lower_char c =
     (let n = (of_char c :: nat) in
        if (65 \<le> n \<and> n \<le> 90) \<or> (192 \<le> n \<and> n \<le> 214) \<or> (216 \<le> n \<and> n \<le> 222)
        then char_of (n + 32) else c)"

definition lower :: "string \<Rightarrow> string" where
  "lower s = map lower_char s"

text \<open>\<^verbatim>\<open>s.strip()\<close>, \<^verbatim>\<open>s.startswith(p)\<close>, \<^verbatim>\<open>p in s\<close>, \<^verbatim>\<open>s.split()\<close>.\<close>

definition strip :: "string \<Rightarrow> string" where
  "strip s = rev (dropWhile is_space (rev (dropWhile is_space s)))"

fun startswith :: "string \<Rightarrow> string \<Rightarrow> bool" where
  "startswith s [] = True"
| "startswith [] (p # ps) = False"
| "startswith (c # cs) (p # ps) = (c = p \<and> startswith cs ps)"

fun contains :: "string \<Rightarrow> string \<Rightarrow> bool" where
  "contains [] p = (p = [])"
| "contains (c # cs) p = (startswith (c # cs) p \<or> contains cs p)"

fun split_from :: "string \<Rightarrow> string \<Rightarrow> string list" where
  "split_from cur [] = (if cur = [] then [] else [cur])"
| "split_from cur (c # cs) =
     (if is_space c then (if cur = [] then split_from [] cs else cur # split_from [] cs)
      else split_from (cur @ [c]) cs)"

definition split :: "string \<Rightarrow> string list" where
  "split s = split_from [] s"

text \<open>\<^verbatim>\<open>s.replace(old, new, 1)\<close>: the first occurrence of \<open>old\<close> is replaced.\<close>

fun replace_first :: "string \<Rightarrow> string \<Rightarrow> string \<Rightarrow> string" where
  "replace_first [] old new = (if old = [] then new else [])"
| "replace_first (c # cs) old new =
     (if startswith (c # cs) old then new @ drop (length old) (c # cs)
      else c # replace_first cs old new)"

text \<open>
  \<^verbatim>\<open>sep.join(parts)\<close>.
\<close>

fun join :: "string \<Rightarrow> string list \<Rightarrow> string" where
  "join sep [] = []"
| "join sep [p] = p"
| "join sep (p # q # ps) = p @ sep @ join sep (q # ps)"

text \<open>
  \<^verbatim>\<open>xs[-n:]\<close> for an integer \<open>n\<close>: a negative start counts from the end and is
  clamped at the front; \<open>-0\<close> is \<open>0\<close>, so \<^verbatim>\<open>xs[-0:]\<close> is the whole list.
\<close>

definition slice_from :: "int \<Rightarrow> 'a list \<Rightarrow> 'a list" where
  "slice_from start xs =
     (if start < 0 then drop (nat (int (length xs) + start)) xs else drop (nat start) xs)"

definition last_n :: "int \<Rightarrow> 'a list \<Rightarrow> 'a list" where
  "last_n n xs = slice_from (- n) xs"

text \<open>The exceptions of Python that the modelled code can raise.\<close>

datatype py_exn = ValueError string | IndexError | KeyError string

section \<open>\<^verbatim>\<open>shlex.split\<close>\<close>

text \<open>
  \<^verbatim>\<open>shlex.split(s)\<close> runs the lexer in POSIX mode with \<^verbatim>\<open>whitespace_split\<close> set and no
  comment characters. The states of \<^verbatim>\<open>read_token\<close> are \<^verbatim>\<open>' '\<close> (\<open>Blank\<close>), \<^verbatim>\<open>'a'\<close>
  (\<open>InWord\<close>), a quote character, and the escape character together with the
  \<^verbatim>\<open>escapedstate\<close> to come back to. The arguments of \<open>read_token\<close> are the state, the
  \<^verbatim>\<open>quoted\<close> flag, the token being built, the tokens produced so far and the input left.
\<close>

datatype lex_state = Blank | InWord | InQuote char | InEscape lex_state

definition shlex_whitespace :: "char \<Rightarrow> bool" where
  "shlex_whitespace c = (c = CHR '' '' \<or> c = CHR 0x09 \<or> c = CHR 0x0D \<or> c = CHR 0x0A)"

definition shlex_quote :: "char \<Rightarrow> bool" where
  "shlex_quote c = (c = CHR 0x27 \<or> c = CHR 0x22)"

definition shlex_escape :: "char \<Rightarrow> bool" where
  "shlex_escape c = (c = CHR 0x5C)"

definition emit :: "bool \<Rightarrow> string \<Rightarrow> string list \<Rightarrow> string list" where
  "emit quoted token toks = (if token \<noteq> [] \<or> quoted then toks @ [token] else toks)"

fun read_token :: "lex_state \<Rightarrow> bool \<Rightarrow> string \<Rightarrow> string list \<Rightarrow> string \<Rightarrow> py_exn + string list" where
  "read_token Blank quoted token toks [] = Inr (emit quoted token toks)"
| "read_token Blank quoted token toks (c # cs) =
     (if shlex_whitespace c then
        (if token \<noteq> [] \<or> quoted then read_token Blank False [] (toks @ [token]) cs
         else read_token Blank quoted token toks cs)
      else if shlex_escape c then read_token (InEscape InWord) quoted token toks cs
      else if shlex_quote c then read_token (InQuote c) quoted token toks cs
      else read_token InWord quoted [c] toks cs)"
| "read_token (InQuote q) quoted token toks [] = Inl (ValueError ''No closing quotation'')"
| "read_token (InQuote q) quoted token toks (c # cs) =
     (if c = q then read_token InWord True token toks cs
      else if shlex_escape c \<and> q = CHR 0x22 then read_token (InEscape (InQuote q)) True token toks cs
      else read_token (InQuote q) True (token @ [c]) toks cs)"
| "read_token (InEscape escapedstate) quoted token toks [] = Inl (ValueError ''No escaped character'')"
| "read_token (InEscape escapedstate) quoted token toks (c # cs) =
     (case escapedstate of
        InQuote q \<Rightarrow>
          (if \<not> shlex_escape c \<and> c \<noteq> q then read_token escapedstate quoted (token @ [CHR 0x5C] @ [c]) toks cs
           else read_token escapedstate quoted (token @ [c]) toks cs)
      | _ \<Rightarrow> read_token escapedstate quoted (token @ [c]) toks cs)"
| "read_token InWord quoted token toks [] = Inr (emit quoted token toks)"
| "read_token InWord quoted token toks (c # cs) =
     (if shlex_whitespace c then
        (if token \<noteq> [] \<or> quoted then read_token Blank False [] (toks @ [token]) cs
         else read_token Blank quoted token toks cs)
      else if shlex_quote c then read_token (InQuote c) quoted token toks cs
      else if shlex_escape c then read_token (InEscape InWord) quoted token toks cs
      else read_token InWord quoted (token @ [c]) toks cs)"

definition shlex_split :: "string \<Rightarrow> py_exn + string list" where
  "shlex_split s = read_token Blank False [] [] s"

section \<open>Safety classifiers\<close>

subsection \<open>\<^verbatim>\<open>MistralAgent.is_dangerous_command\<close> (mistral\_api\_agent\_v05)\<close>

definition DANGEROUS_COMMANDS :: "string list" where
  "DANGEROUS_COMMANDS =
     [''rm'', ''mv'', ''dd'', ''mkfs'', ''fdisk'', ''>'', ''2>'', ''truncate'', ''rmdir'',
      ''pkill'', ''kill'', ''shutdown'', ''reboot'', ''halt'', ''systemctl stop'',
      ''systemctl restart'', ''chown'', ''chmod'', ''userdel'', ''groupdel'', ''deluser'',
      ''passwd'', ''parted'', ''lvremove'', ''vgremove'', ''pvremove'', ''iptables -F'',
      ''ufw disable'']"

text \<open>
  The result is \<open>Inl\<close> when \<^verbatim>\<open>shlex.split\<close> raises: the function has no handler. In the
  second test \<^verbatim>\<open>and\<close> binds tighter than \<^verbatim>\<open>or\<close>.
\<close>

definition is_dangerous_command :: "string \<Rightarrow> py_exn + bool" where
  "is_dangerous_command command =
     (case shlex_split command of
        Inl e \<Rightarrow> Inl e
      | Inr command_parts \<Rightarrow>
          (case command_parts of
             [] \<Rightarrow> Inr False
           | base_cmd # _ \<Rightarrow>
               if base_cmd \<in> set DANGEROUS_COMMANDS then Inr True
               else if contains command ''>'' \<or>
                       (contains command ''|'' \<and> (contains command ''rm'' \<or> contains command ''mv''))
               then Inr True
               else if base_cmd = ''rm'' \<and> ''-rf'' \<in> set command_parts then Inr True
               else Inr False))"

subsection \<open>\<^verbatim>\<open>MistralAgent.is_dangerous_command\<close> (mistral\_api\_agent\_v04)\<close>

text \<open>
  The list of dangerous commands is read from the configuration; the empty command is not
  tokenized.
\<close>

definition DANGEROUS_COMMANDS_v04 :: "string list" where
  "DANGEROUS_COMMANDS_v04 =
     [''rm'', ''mv'', ''dd'', ''mkfs'', ''fdisk'', ''>'', ''2>'', ''truncate'', ''rmdir'', ''pkill'',
      ''kill'', '':(){:|:&};:'']"

definition is_dangerous_command_v04 :: "string list \<Rightarrow> string \<Rightarrow> py_exn + bool" where
  "is_dangerous_command_v04 dangerous_commands command =
     (case (if command \<noteq> [] then shlex_split command else Inr []) of
        Inl e \<Rightarrow> Inl e
      | Inr command_parts \<Rightarrow>
          (case command_parts of
             [] \<Rightarrow> Inr False
           | base_cmd # _ \<Rightarrow>
               if base_cmd \<in> set dangerous_commands then Inr True
               else if contains command ''>'' \<or>
                       (contains command ''|'' \<and> (contains command ''rm'' \<or> contains command ''mv''))
               then Inr True
               else if base_cmd = ''rm'' \<and> (''-rf'' \<in> set command_parts \<or> ''-fr'' \<in> set command_parts)
               then Inr True
               else Inr False))"

subsection \<open>\<^verbatim>\<open>check_command_safety\<close> (agent\_admin, utils/safety.py)\<close>

definition SAFETY_DANGEROUS_COMMANDS :: "string list" where
  "SAFETY_DANGEROUS_COMMANDS =
     [''rm -rf'', ''rm -r'', ''rmdir'', ''mkfs'', ''dd'', ''shred'', ''fdisk'', ''mkfs'', ''format'',
      ''>>'', ''>'', ''truncate'', ''drop database'', ''drop table'', ''delete from'', ''wget'',
      ''curl -O'']"

definition DANGEROUS_OPTIONS :: "string list" where
  "DANGEROUS_OPTIONS = [''--force'', ''--no-preserve-root'', ''-f'', ''--delete'']"

definition system_paths :: "string list" where
  "system_paths = [''/etc/'', ''/var/'', ''/boot/'', ''/lib/'', ''/bin/'', ''/sbin/'']"

text \<open>
  The three tests of the loop body on one command; each inner \<^verbatim>\<open>for ... break\<close> loop
  clears \<^verbatim>\<open>is_safe\<close> exactly when some entry of its list occurs in the command.
\<close>

definition command_is_safe :: "string \<Rightarrow> bool" where
  "command_is_safe command =
     (let is_safe = \<not> list_ex (contains command) SAFETY_DANGEROUS_COMMANDS;
          is_safe = (if is_safe then \<not> list_ex (contains command) DANGEROUS_OPTIONS else is_safe);
          is_safe = (if is_safe \<and> (contains command ''>'' \<or> contains command ''>>'')
                     then \<not> list_ex (contains command) system_paths else is_safe)
      in is_safe)"

fun check_loop :: "string list \<Rightarrow> string list \<Rightarrow> string list \<Rightarrow> string list \<times> string list" where
  "check_loop safe_commands unsafe_commands [] = (safe_commands, unsafe_commands)"
| "check_loop safe_commands unsafe_commands (command # commands) =
     (if command_is_safe command then check_loop (safe_commands @ [command]) unsafe_commands commands
      else check_loop safe_commands (unsafe_commands @ [command]) commands)"

definition check_command_safety :: "string list \<Rightarrow> string list \<times> string list" where
  "check_command_safety commands = check_loop [] [] commands"

section \<open>Conversation history\<close>

subsection \<open>\<^verbatim>\<open>ContextManager.add_message\<close> (agent\_admin, context\_manager.py)\<close>

record message =
  role :: string
  content :: string
  timestamp :: string

text \<open>
  The fields of the manager that \<^verbatim>\<open>add_message\<close> reads and writes. \<open>history_file\<close> is what
  \<^verbatim>\<open>_save_history\<close> last wrote to \<^verbatim>\<open>history.json\<close>; \<open>session_history\<close> is the configuration
  switch that enables saving.
\<close>

record context_manager =
  messages :: "message list"
  history_size :: int
  session_history :: bool
  history_file :: "message list option"

text \<open>
  \<open>now\<close> is the value of \<^verbatim>\<open>datetime.now().isoformat()\<close>; \<open>write_ok\<close> tells whether the
  write of the history file succeeds (a failure is logged and otherwise ignored).
\<close>

definition save_history_cm :: "bool \<Rightarrow> context_manager \<Rightarrow> context_manager" where
  "save_history_cm write_ok cm =
     (if write_ok then cm\<lparr>history_file := Some (messages cm)\<rparr> else cm)"

definition add_message :: "string \<Rightarrow> bool \<Rightarrow> string \<Rightarrow> string \<Rightarrow> context_manager \<Rightarrow> context_manager" where
  "add_message now write_ok r c cm =
     (let msgs = messages cm @ [\<lparr>role = r, content = c, timestamp = now\<rparr>];
          msgs = (if int (length msgs) > history_size cm then last_n (history_size cm) msgs else msgs);
          cm = cm\<lparr>messages := msgs\<rparr>
      in if session_history cm then save_history_cm write_ok cm else cm)"

text \<open>A sequence of calls, each with its own time stamp and write outcome.\<close>

fun add_messages :: "(string \<times> bool \<times> string \<times> string) list \<Rightarrow> context_manager \<Rightarrow> context_manager" where
  "add_messages [] cm = cm"
| "add_messages ((now, write_ok, r, c) # rest) cm = add_messages rest (add_message now write_ok r c cm)"

text \<open>The message that a call appends.\<close>

definition call_message :: "string \<times> bool \<times> string \<times> string \<Rightarrow> message" where
  "call_message call = (case call of (now, w, r, c) \<Rightarrow> \<lparr>role = r, content = c, timestamp = now\<rparr>)"

subsection \<open>The history update of \<^verbatim>\<open>MistralAgent.call_mistral_api\<close> (mistral\_api\_agent\_v05)\<close>

definition MAX_HISTORY_ENTRIES :: int where
  "MAX_HISTORY_ENTRIES = 20"

text \<open>An entry of \<^verbatim>\<open>conversation_history\<close> is a pair of a role and a content.\<close>

type_synonym entry = "string \<times> string"

definition record_exchange :: "string \<Rightarrow> string \<Rightarrow> entry list \<Rightarrow> entry list" where
  "record_exchange user_message assistant_message conversation_history =
     (let h = conversation_history @ [(''user'', user_message)];
          h = h @ [(''assistant'', assistant_message)]
      in if int (length h) > MAX_HISTORY_ENTRIES * 2 then last_n (MAX_HISTORY_ENTRIES * 2) h else h)"

section \<open>Paths (\<^verbatim>\<open>os.path\<close> on POSIX)\<close>

text \<open>\<^verbatim>\<open>s.split(sep)\<close> with a one-character separator: the pieces between the separators.\<close>

fun split_on :: "char \<Rightarrow> string \<Rightarrow> string \<Rightarrow> string list" where
  "split_on sep cur [] = [cur]"
| "split_on sep cur (c # cs) =
     (if c = sep then cur # split_on sep [] cs else split_on sep (cur @ [c]) cs)"

definition endswith_sep :: "string \<Rightarrow> bool" where
  "endswith_sep path = (path \<noteq> [] \<and> last path = CHR ''/'')"

definition path_join :: "string \<Rightarrow> string \<Rightarrow> string" where
  "path_join a b =
     (if startswith b ''/'' then b
      else if a = [] \<or> endswith_sep a then a @ b
      else a @ ''/'' @ b)"

text \<open>The loop of \<^verbatim>\<open>normpath\<close> over the components; \<open>initial_slashes\<close> is 0, 1 or 2.\<close>

fun normpath_loop :: "nat \<Rightarrow> string list \<Rightarrow> string list \<Rightarrow> string list" where
  "normpath_loop initial_slashes new_comps [] = new_comps"
| "normpath_loop initial_slashes new_comps (part # comps) =
     (if part = [] \<or> part = ''.'' then normpath_loop initial_slashes new_comps comps
      else if part \<noteq> ''..'' \<or> (initial_slashes = 0 \<and> new_comps = []) \<or>
              (new_comps \<noteq> [] \<and> last new_comps = ''..'')
      then normpath_loop initial_slashes (new_comps @ [part]) comps
      else if new_comps \<noteq> [] then normpath_loop initial_slashes (butlast new_comps) comps
      else normpath_loop initial_slashes new_comps comps)"

definition normpath :: "string \<Rightarrow> string" where
  "normpath path =
     (if path = [] then ''.''
      else
        let initial_slashes =
              (if startswith path ''/'' then
                 (if startswith path ''//'' \<and> \<not> startswith path ''///'' then 2 else 1)
               else 0);
            comps = normpath_loop initial_slashes [] (split_on CHR ''/'' [] path);
            path = join ''/'' comps;
            path = (if initial_slashes \<noteq> 0 then replicate initial_slashes CHR ''/'' @ path else path)
        in if path = [] then ''.'' else path)"

text \<open>\<^verbatim>\<open>os.path.abspath\<close>; \<open>getcwd\<close> is the working directory of the process.\<close>

definition abspath :: "string \<Rightarrow> string \<Rightarrow> string" where
  "abspath getcwd path =
     normpath (if startswith path ''/'' then path else path_join getcwd path)"

section \<open>The world outside the agent\<close>

text \<open>
  Everything the agent does to its surroundings is recorded, in order, as an event. The
  text of a log line or of a prompt is represented by the value interpolated into it.
\<close>

datatype event =
    LogInfo string
  | LogError string
  | Popen string string
  | Run string
  | Chdir string
  | Confirm string
  | SaveConfig
  | AskRunScript string
  | WriteFile string string
  | Chmod string
  | Tool string "string list"

text \<open>
  The outcome of a subprocess: its return code with the decoded standard output and
  standard error, or the text of the exception raised while starting or reading it.
\<close>

datatype proc_result = Exited int string string | Raised string

text \<open>
  What the surroundings answer. Every answer may depend on the events so far:
  \<open>isdir\<close> is \<^verbatim>\<open>os.path.isdir\<close>; \<open>chdir\<close> gives the error text when \<^verbatim>\<open>os.chdir\<close> raises;
  \<open>confirm\<close> is the operator's answer to the confirmation prompt for a command;
  \<open>run_script\<close> the answer to the offer to run a saved script; \<open>popen\<close> the outcome of
  \<^verbatim>\<open>subprocess.Popen(command, shell=True, cwd=...)\<close> and \<open>subprocess_run\<close> that of
  \<^verbatim>\<open>subprocess.run(command, shell=True)\<close>; \<open>write_ok\<close> tells whether writing a file
  succeeds; \<open>clock\<close> is \<^verbatim>\<open>datetime.now().isoformat()\<close>; \<open>expanduser\<close> is
  \<^verbatim>\<open>os.path.expanduser\<close>; \<open>tool\<close> is the text returned by a built-in tool;
  \<open>error_text\<close> is the text of the exception of a write that fails.
\<close>

record env =
  isdir :: "event list \<Rightarrow> string \<Rightarrow> bool"
  chdir :: "event list \<Rightarrow> string \<Rightarrow> string option"
  confirm :: "event list \<Rightarrow> string \<Rightarrow> bool"
  run_script :: "event list \<Rightarrow> string \<Rightarrow> bool"
  popen :: "event list \<Rightarrow> string \<Rightarrow> string \<Rightarrow> proc_result"
  subprocess_run :: "event list \<Rightarrow> string \<Rightarrow> proc_result"
  write_ok :: "event list \<Rightarrow> string \<Rightarrow> bool"
  clock :: "event list \<Rightarrow> string"
  expanduser :: "string \<Rightarrow> string"
  tool :: "event list \<Rightarrow> string \<Rightarrow> string list \<Rightarrow> string"
  error_text :: "event list \<Rightarrow> string"

text \<open>
  One entry of \<^verbatim>\<open>config['command_history']\<close>, and the keys of the configuration of
  the agent of mistral\_api\_agent\_v05 that the modelled methods read or write. An absent
  key reads as the empty dictionary or list. A dictionary is the list of its items, in
  insertion order.
\<close>

record history_entry =
  h_command :: string
  h_timestamp :: string
  h_directory :: string

record config =
  aliases :: "(string \<times> string) list"
  custom_commands :: "(string \<times> string) list"
  command_history :: "history_entry list"

record agent =
  current_dir :: string
  conversation_history :: "entry list"
  system_message :: string
  system_info :: "(string \<times> string) list"
  config :: config

text \<open>
  A saved context of the agent of mistral\_api\_agent\_v04, and the state of the file of
  saved contexts \<^verbatim>\<open>context.json\<close>: absent, not readable as a dictionary of contexts, or the
  items of that dictionary. \<^verbatim>\<open>json.load\<close> gives back what \<^verbatim>\<open>json.dump\<close> wrote.

  The surroundings: the events so far, the working directory of the process, the
  configuration last written to the configuration file, and the file of saved contexts.
\<close>

record snapshot =
  s_history :: "entry list"
  s_current_dir :: string
  s_system_message :: string
  s_timestamp :: string

datatype file_state = Absent | Unreadable | Contexts "(string \<times> snapshot) list"

record world =
  events :: "event list"
  getcwd :: string
  config_file :: "config option"
  context_file :: file_state

definition log :: "event \<Rightarrow> world \<Rightarrow> world" where
  "log e w = w\<lparr>events := events w @ [e]\<rparr>"

text \<open>What \<^verbatim>\<open>execute_command\<close> returns: each message with the values interpolated into it.\<close>

datatype message_text =
    CurrentDir string
  | NoSuchDir string
  | CdError string
  | Cancelled
  | ExitError int string
  | Output string
  | ExecError string
  | Unavailable string "string list"
  | NeedsParams string "string list"
  | MissingParam string
  | ScriptCreated string "message_text option"
  | TemplateUnavailable string "string list"
  | TemplateCreated string string
  | TemplateError string
  | ToolOutput string

section \<open>The execution engine (mistral\_api\_agent\_v05)\<close>

text \<open>Assignment \<^verbatim>\<open>d[key] = value\<close> on a dictionary given by its items.\<close>

fun dict_set :: "('k \<times> 'v) list \<Rightarrow> 'k \<Rightarrow> 'v \<Rightarrow> ('k \<times> 'v) list" where
  "dict_set [] key v = [(key, v)]"
| "dict_set ((k, x) # rest) key v =
     (if k = key then (k, v) # rest else (k, x) # dict_set rest key v)"

definition sq :: string where
  "sq = [CHR 0x27]"

definition SYSTEM_INFO_COMMANDS :: "(string \<times> string) list" where
  "SYSTEM_INFO_COMMANDS =
     [(''os-version'', ''cat /etc/os-release''),
      (''kernel-version'', ''uname -a''),
      (''hostname'', ''hostname -f''),
      (''uptime'', ''uptime''),
      (''cpu-model'', ''cat /proc/cpuinfo | grep '' @ [CHR 0x27] @ ''model name'' @ [CHR 0x27] @ '' | head -n 1 | cut -d '' @ [CHR 0x27] @ '':'' @ [CHR 0x27] @ '' -f 2 | xargs''),
      (''total-memory'', ''free -h | grep Mem | awk '' @ [CHR 0x27] @ ''{print $2}'' @ [CHR 0x27]),
      (''used-memory'', ''free -h | grep Mem | awk '' @ [CHR 0x27] @ ''{print $3}'' @ [CHR 0x27]),
      (''disk-usage-root'', ''df -h / | tail -n 1 | awk '' @ [CHR 0x27] @ ''{print $5}'' @ [CHR 0x27]),
      (''load-average'', ''cat /proc/loadavg | awk '' @ [CHR 0x27] @ ''{print $1, $2, $3}'' @ [CHR 0x27]),
      (''users-logged-in'', ''who | wc -l''),
      (''process-count'', ''ps aux | wc -l''),
      (''network-interfaces'', ''ip -br addr show'')]"

text \<open>\<^verbatim>\<open>collect_system_info\<close>: one subprocess for each entry of the table.\<close>

fun collect_loop :: "env \<Rightarrow> (string \<times> string) list \<Rightarrow> agent \<times> world \<Rightarrow> agent \<times> world" where
  "collect_loop env [] (a, w) = (a, w)"
| "collect_loop env ((key, command) # rest) (a, w) =
     (let result = subprocess_run env (events w) command;
          w = log (Run command) w;
          v = (case result of
                 Exited returncode out err \<Rightarrow> if returncode = 0 then strip out else ''Non disponible''
               | Raised e \<Rightarrow> ''Erreur'')
      in collect_loop env rest (a\<lparr>system_info := dict_set (system_info a) key v\<rparr>, w))"

definition collect_system_info :: "env \<Rightarrow> agent \<times> world \<Rightarrow> agent \<times> world" where
  "collect_system_info env s = collect_loop env SYSTEM_INFO_COMMANDS s"

text \<open>
  \<^verbatim>\<open>save_config\<close>: the configuration is written to its file; a failure is logged and
  leaves the file as it was.
\<close>

definition save_config :: "env \<Rightarrow> agent \<times> world \<Rightarrow> agent \<times> world" where
  "save_config env s =
     (case s of (a, w) \<Rightarrow>
        if write_ok env (events w) ''~/.mistral_agent_config.json''
        then (a, log SaveConfig (w\<lparr>config_file := Some (config a)\<rparr>))
        else (a, log (LogError ''save_config'') w))"

text \<open>
  The test of the loop over the aliases,
  \<^verbatim>\<open>command.strip() == alias or command.strip().startswith(alias + " ")\<close>.
\<close>

definition alias_matches :: "string \<Rightarrow> string \<Rightarrow> bool" where
  "alias_matches command alias = (strip command = alias \<or> startswith (strip command) (alias @ '' ''))"

text \<open>The loop over the aliases: the first alias that the command is or starts with is replaced.\<close>

fun expand_alias :: "(string \<times> string) list \<Rightarrow> string \<Rightarrow> string" where
  "expand_alias [] command = command"
| "expand_alias ((alias, cmd) # rest) command =
     (if strip command = alias \<or> startswith (strip command) (alias @ '' '')
      then replace_first command alias cmd
      else expand_alias rest command)"

text \<open>
  The branch of \<^verbatim>\<open>execute_command\<close> for \<^verbatim>\<open>cd\<close>: first the directory that the command
  names, from the tracked directory and the working directory of the process.
\<close>

definition cd_path :: "string \<Rightarrow> string \<Rightarrow> string \<Rightarrow> string" where
  "cd_path tracked_dir process_dir command =
     (let target_dir = strip (drop 3 (strip command));
          new_dir = (if startswith target_dir ''/'' then target_dir
                     else path_join tracked_dir target_dir)
      in abspath process_dir new_dir)"

definition change_dir :: "env \<Rightarrow> string \<Rightarrow> agent \<times> world \<Rightarrow> (py_exn + message_text) \<times> agent \<times> world" where
  "change_dir env command s =
     (case s of (a, w) \<Rightarrow>
        let new_dir = cd_path (current_dir a) (getcwd w) command
        in if isdir env (events w) new_dir then
             (case chdir env (events w) new_dir of
                Some e \<Rightarrow> (Inr (CdError e), a, log (LogError e) w)
              | None \<Rightarrow>
                  let w = (log (Chdir new_dir) w)\<lparr>getcwd := new_dir\<rparr>;
                      a = a\<lparr>current_dir := new_dir\<rparr>;
                      (a, w) = collect_system_info env (a, w)
                  in (Inr (CurrentDir new_dir), a, w))
           else (Inr (NoSuchDir new_dir), a, w))"

text \<open>The command is appended to \<^verbatim>\<open>config['command_history']\<close> and the configuration saved.\<close>

definition record_command :: "env \<Rightarrow> string \<Rightarrow> agent \<times> world \<Rightarrow> agent \<times> world" where
  "record_command env command s =
     (case s of (a, w) \<Rightarrow>
        if command \<notin> set [''pwd'', ''clear''] \<and> \<not> startswith command ''ls'' then
          let item = \<lparr>h_command = command, h_timestamp = clock env (events w),
                      h_directory = current_dir a\<rparr>;
              hist = command_history (config a) @ [item];
              hist = (if length hist > 100 then last_n 100 hist else hist);
              a = a\<lparr>config := (config a)\<lparr>command_history := hist\<rparr>\<rparr>
          in save_config env (a, w)
        else (a, w))"

text \<open>The subprocess, run in the tracked directory.\<close>

definition run_process :: "env \<Rightarrow> string \<Rightarrow> agent \<times> world \<Rightarrow> (py_exn + message_text) \<times> agent \<times> world" where
  "run_process env command s =
     (case s of (a, w) \<Rightarrow>
        let result = popen env (events w) command (current_dir a);
            w = log (Popen command (current_dir a)) w
        in case result of
             Raised e \<Rightarrow> (Inr (ExecError e), a, log (LogError e) w)
           | Exited returncode out err \<Rightarrow>
               if returncode \<noteq> 0 then (Inr (ExitError returncode err), a, w)
               else if list_ex (contains command)
                         [''apt'', ''yum'', ''dnf'', ''systemctl'', ''docker'', ''kubectl'']
               then (let (a, w) = collect_system_info env (a, w) in (Inr (Output out), a, w))
               else (Inr (Output out), a, w))"

text \<open>
  \<^verbatim>\<open>execute_command\<close>. The first component of the result is \<open>Inl\<close> when an exception
  leaves the method; the state reached before the exception is kept.
\<close>

definition execute_command :: "env \<Rightarrow> string \<Rightarrow> agent \<times> world \<Rightarrow> (py_exn + message_text) \<times> agent \<times> world" where
  "execute_command env command s =
     (case s of (a, w) \<Rightarrow>
        let w = log (LogInfo command) w;
            command = expand_alias (aliases (config a)) command
        in if startswith (strip command) ''cd '' then change_dir env command (a, w)
           else
             let (a, w) = record_command env command (a, w)
             in case is_dangerous_command command of
                  Inl e \<Rightarrow> (Inl e, a, w)
                | Inr dangerous \<Rightarrow>
                    if dangerous then
                      (let confirmed = confirm env (events w) command;
                           w = log (Confirm command) w
                       in if \<not> confirmed then (Inr Cancelled, a, w)
                          else run_process env command (a, w))
                    else run_process env command (a, w))"

section \<open>The execution engine (mistral\_api\_agent\_v04)\<close>

text \<open>
  The agent of mistral\_api\_agent\_v04 keeps its aliases in a dictionary of its own and
  reads the list of dangerous commands and the debug switch from its configuration;
  \<^verbatim>\<open>execute_command\<close> changes none of them. Its tracked directory, conversation history and
  system message are the fields of the same names.
\<close>

record settings_v04 =
  alias_table :: "(string \<times> string) list"
  dangerous_commands :: "string list"
  debug_mode :: bool

text \<open>
  The alias step: the first word of the command is looked up; a command without a word
  raises \<^verbatim>\<open>IndexError\<close>.
\<close>

definition expand_alias_v04 :: "settings_v04 \<Rightarrow> string \<Rightarrow> world \<Rightarrow> py_exn + string \<times> world" where
  "expand_alias_v04 settings command w =
     (case split (strip command) of
        [] \<Rightarrow> Inl IndexError
      | alias_name # _ \<Rightarrow>
          (case map_of (alias_table settings) alias_name of
             None \<Rightarrow> Inr (command, w)
           | Some alias_value \<Rightarrow>
               Inr (replace_first command alias_name alias_value,
                    if debug_mode settings then log (LogInfo alias_name) w else w)))"

definition cd_path_v04 :: "env \<Rightarrow> string \<Rightarrow> string \<Rightarrow> string \<Rightarrow> string" where
  "cd_path_v04 env tracked_dir process_dir command =
     (let target_dir = strip (drop 3 (strip command));
          new_dir = (if startswith target_dir ''/'' then target_dir
                     else if startswith target_dir ''~'' then expanduser env target_dir
                     else path_join tracked_dir target_dir)
      in abspath process_dir new_dir)"

definition change_dir_v04 :: "env \<Rightarrow> string \<Rightarrow> agent \<times> world \<Rightarrow> (py_exn + message_text) \<times> agent \<times> world" where
  "change_dir_v04 env command s =
     (case s of (a, w) \<Rightarrow>
        let new_dir = cd_path_v04 env (current_dir a) (getcwd w) command
        in if isdir env (events w) new_dir then
             (case chdir env (events w) new_dir of
                Some e \<Rightarrow> (Inr (CdError e), a, log (LogError e) w)
              | None \<Rightarrow>
                  (Inr (CurrentDir new_dir), a\<lparr>current_dir := new_dir\<rparr>,
                   (log (Chdir new_dir) w)\<lparr>getcwd := new_dir\<rparr>))
           else (Inr (NoSuchDir new_dir), a, w))"

definition run_process_v04 :: "env \<Rightarrow> string \<Rightarrow> agent \<times> world \<Rightarrow> (py_exn + message_text) \<times> agent \<times> world" where
  "run_process_v04 env command s =
     (case s of (a, w) \<Rightarrow>
        let result = popen env (events w) command (current_dir a);
            w = log (Popen command (current_dir a)) w
        in case result of
             Raised e \<Rightarrow> (Inr (ExecError e), a, log (LogError e) w)
           | Exited returncode out err \<Rightarrow>
               if returncode \<noteq> 0 then (Inr (ExitError returncode err), a, w)
               else (Inr (Output out), a, w))"

definition execute_command_v04 ::
  "env \<Rightarrow> settings_v04 \<Rightarrow> string \<Rightarrow> agent \<times> world \<Rightarrow> (py_exn + message_text) \<times> agent \<times> world" where
  "execute_command_v04 env settings command s =
     (case s of (a, w) \<Rightarrow>
        let w = log (LogInfo command) w
        in case expand_alias_v04 settings command w of
             Inl e \<Rightarrow> (Inl e, a, w)
           | Inr (command, w) \<Rightarrow>
               if startswith (strip command) ''cd '' then change_dir_v04 env command (a, w)
               else
                 case is_dangerous_command_v04 (dangerous_commands settings) command of
                   Inl e \<Rightarrow> (Inl e, a, w)
                 | Inr dangerous \<Rightarrow>
                     if dangerous then
                       (let confirmed = confirm env (events w) command;
                            w = log (Confirm command) w
                        in if \<not> confirmed then (Inr Cancelled, a, w)
                           else run_process_v04 env command (a, w))
                     else run_process_v04 env command (a, w))"

section \<open>Saved contexts (mistral\_api\_agent\_v04)\<close>



text \<open>\<^verbatim>\<open>list_contexts\<close>: the names with the times of saving.\<close>

definition list_contexts :: "world \<Rightarrow> (string \<times> string) list" where
  "list_contexts w =
     (case context_file w of
        Contexts contexts \<Rightarrow> map (\<lambda>(name, context). (name, s_timestamp context)) contexts
      | _ \<Rightarrow> [])"

section \<open>Example surroundings\<close>

text \<open>
  Surroundings in which exactly the directories \<^verbatim>\<open>/\<close>, \<^verbatim>\<open>/a\<close>, \<^verbatim>\<open>/a/b\<close> and \<^verbatim>\<open>/tmp\<close>
  exist, every subprocess exits with code 0 and no output, every write succeeds, and
  the operator gives the same answer to every prompt.
\<close>

definition example_env :: "bool \<Rightarrow> env" where
  "example_env answer =
     \<lparr>isdir = (\<lambda>ev p. p \<in> set [''/'', ''/a'', ''/a/b'', ''/tmp'']),
      chdir = (\<lambda>ev p. None),
      confirm = (\<lambda>ev c. answer),
      run_script = (\<lambda>ev p. answer),
      popen = (\<lambda>ev c d. Exited 0 [] []),
      subprocess_run = (\<lambda>ev c. Exited 0 [] []),
      write_ok = (\<lambda>ev p. True),
      clock = (\<lambda>ev. ''2024-01-01T00:00:00''),
      expanduser = (\<lambda>p. ''/a'' @ drop 1 p),
      tool = (\<lambda>ev name args. []),
      error_text = (\<lambda>ev. ''Permission denied'')\<rparr>"

definition example_config :: config where
  "example_config = \<lparr>aliases = [], custom_commands = [], command_history = []\<rparr>"

definition example_agent :: agent where
  "example_agent =
     \<lparr>current_dir = ''/a/b'', conversation_history = [], system_message = ''system'',
      system_info = [], config = example_config\<rparr>"

definition example_world :: world where
  "example_world = \<lparr>events = [], getcwd = ''/a/b'', config_file = None, context_file = Absent\<rparr>"

definition example_settings :: settings_v04 where
  "example_settings =
     \<lparr>alias_table = [(''ll'', ''ls -l'')], dangerous_commands = DANGEROUS_COMMANDS_v04,
      debug_mode = False\<rparr>"

section \<open>Observations on events\<close>

definition is_popen :: "event \<Rightarrow> bool" where
  "is_popen e = (case e of Popen c d \<Rightarrow> True | _ \<Rightarrow> False)"

definition is_run :: "event \<Rightarrow> bool" where
  "is_run e = (case e of Run c \<Rightarrow> True | _ \<Rightarrow> False)"

definition is_confirm :: "event \<Rightarrow> bool" where
  "is_confirm e = (case e of Confirm c \<Rightarrow> True | _ \<Rightarrow> False)"

text \<open>The events that a step added to those of the world \<open>w\<close> it started from.\<close>

definition added :: "world \<Rightarrow> world \<Rightarrow> event list" where
  "added w w' = drop (length (events w)) (events w')"

section \<open>Regular expression search\<close>

text \<open>
  A pattern is represented by its matcher: given the text from a position on, the groups
  of the match that starts at this position and the length of the match, or \<open>None\<close>
  when the pattern does not match there. \<^verbatim>\<open>re.finditer\<close> and \<^verbatim>\<open>re.findall\<close> try the
  positions from left to right and go on at the end of each match; \<^verbatim>\<open>re.sub\<close> with the
  empty replacement keeps the characters outside the matches.
\<close>

type_synonym 'g matcher = "string \<Rightarrow> ('g \<times> nat) option"

function finditer :: "'g matcher \<Rightarrow> string \<Rightarrow> 'g list" where
  "finditer m s =
     (if s = [] then []
      else case m s of
             Some (g, n) \<Rightarrow> g # finditer m (drop (max 1 n) s)
           | None \<Rightarrow> finditer m (tl s))"
  by pat_completeness auto
termination
  by (relation "measure (\<lambda>(m, s). length s)") auto

declare finditer.simps [simp del]

function sub_empty :: "'g matcher \<Rightarrow> string \<Rightarrow> string" where
  "sub_empty m s =
     (if s = [] then []
      else case m s of
             Some (g, n) \<Rightarrow> sub_empty m (drop (max 1 n) s)
           | None \<Rightarrow> hd s # sub_empty m (tl s))"
  by pat_completeness auto
termination
  by (relation "measure (\<lambda>(m, s). length s)") auto

declare sub_empty.simps [simp del]

section \<open>Quick commands (mistral\_api\_agent\_v05)\<close>

definition QUICK_COMMANDS :: "(string \<times> string) list" where
  "QUICK_COMMANDS =
     [(''service-status'', ''systemctl status {service}''),
      (''service-start'', ''systemctl start {service}''),
      (''service-stop'', ''systemctl stop {service}''),
      (''service-restart'', ''systemctl restart {service}''),
      (''service-enable'', ''systemctl enable {service}''),
      (''service-disable'', ''systemctl disable {service}''),
      (''service-list'', ''systemctl list-units --type=service''),
      (''cpu-info'', ''lscpu''),
      (''mem-info'', ''free -h''),
      (''disk-usage'', ''df -h''),
      (''top-processes'', ''ps aux | sort -nrk 3,3 | head -n 10''),
      (''check-port'', ''ss -tuln | grep {port}''),
      (''cpu-load'', ''mpstat 1 5''),
      (''io-stats'', ''iostat -xz 1 5''),
      (''ping-host'', ''ping -c 4 {host}''),
      (''check-ip'', ''ip addr show''),
      (''route-table'', ''ip route''),
      (''dns-lookup'', ''dig {domain}''),
      (''open-ports'', ''netstat -tuln''),
      (''traceroute'', ''traceroute {host}''),
      (''docker-ps'', ''docker ps''),
      (''docker-images'', ''docker images''),
      (''docker-stats'', ''docker stats --no-stream''),
      (''docker-prune'', ''docker system prune -f''),
      (''k8s-pods'', ''kubectl get pods''),
      (''k8s-nodes'', ''kubectl get nodes''),
      (''k8s-deployments'', ''kubectl get deployments''),
      (''k8s-services'', ''kubectl get services''),
      (''logs-system'', ''journalctl -xe''),
      (''logs-service'', ''journalctl -u {service} -f''),
      (''logs-auth'', ''tail -n 50 /var/log/auth.log''),
      (''logs-kernel'', ''dmesg | tail -n 50''),
      (''apt-update'', ''sudo apt update && sudo apt list --upgradable''),
      (''apt-upgrade'', ''sudo apt upgrade -y''),
      (''pkg-installed'', ''dpkg -l | grep {package}''),
      (''find-large-files'', ''find {path} -type f -size +{size}M -exec ls -lh {} '' @ [CHR 0x5C] @ '';''),
      (''tail-file'', ''tail -f {file}''),
      (''find-modified'', ''find {path} -type f -mtime -{days} -ls''),
      (''git-status'', ''git status''),
      (''git-log'', ''git log --oneline --graph --decorate -n 10'')]"

text \<open>
  The pattern \<^verbatim>\<open>\{([^}]+)\}\<close>: an opening brace, the longest non-empty run of characters
  other than the closing brace, and a closing brace. The group is the run.
\<close>

definition param_pattern :: "string matcher" where
  "param_pattern s =
     (case s of
        [] \<Rightarrow> None
      | c # cs \<Rightarrow>
          if c = CHR ''{'' then
            (let name = takeWhile (\<lambda>x. x \<noteq> CHR ''}'') cs;
                 rest = dropWhile (\<lambda>x. x \<noteq> CHR ''}'') cs
             in if name \<noteq> [] \<and> rest \<noteq> [] then Some (name, length name + 2) else None)
          else None)"

text \<open>The loop that fills the dictionary \<^verbatim>\<open>params\<close>.\<close>

fun bind_params :: "(string \<times> string) list \<Rightarrow> string list \<Rightarrow> string list \<Rightarrow> (string \<times> string) list" where
  "bind_params params [] args = params"
| "bind_params params (name # names) [] = params"
| "bind_params params (name # names) (arg # args) = bind_params (dict_set params name arg) names args"

text \<open>
  \<^verbatim>\<open>template.format(**params)\<close> with string values. The text is read from left to right:
  outside a field (\<open>None\<close>) a doubled brace stands for one brace; inside a field
  (\<open>Some name\<close>, the name read so far) the closing brace ends the field. A field with an
  empty name takes the next positional argument, of which there are none. A name that
  is a decimal number is the position of an argument, of which there are none either;
  \<open>get_integer\<close> reads the name as \<^verbatim>\<open>str.format\<close> does, digit by digit, gives up at the
  first character that is no digit, and fails as soon as the number read so far would
  exceed \<^verbatim>\<open>PY_SSIZE_T_MAX\<close>, here the value of a 64-bit build. The model covers the fields
  that are a name: for a field with a conversion (\<^verbatim>\<open>!\<close>), a format specification (\<^verbatim>\<open>:\<close>),
  an index (\<^verbatim>\<open>[\<close>) or an attribute (\<^verbatim>\<open>.\<close>), the result \<open>NotModelled\<close> says that the model
  does not tell what Python does.
\<close>

datatype format_error = Raises py_exn | NotModelled

definition prepend :: "string \<Rightarrow> format_error + string \<Rightarrow> format_error + string" where
  "prepend v r = (case r of Inl e \<Rightarrow> Inl e | Inr s \<Rightarrow> Inr (v @ s))"

definition is_digit :: "char \<Rightarrow> bool" where
  "is_digit c = (c \<in> set ''0123456789'')"

definition PY_SSIZE_T_MAX :: int where
  "PY_SSIZE_T_MAX = 2 ^ 63 - 1"

datatype field_index = NotInteger | Index int | TooManyDigits

fun get_integer :: "int \<Rightarrow> string \<Rightarrow> field_index" where
  "get_integer accumulator [] = Index accumulator"
| "get_integer accumulator (c # cs) =
     (if \<not> is_digit c then NotInteger
      else
        let digitval = int (of_char c) - 48
        in if accumulator > (PY_SSIZE_T_MAX - digitval) div 10 then TooManyDigits
           else get_integer (accumulator * 10 + digitval) cs)"

fun py_format :: "(string \<times> string) list \<Rightarrow> string option \<Rightarrow> string \<Rightarrow> format_error + string" where
  "py_format params None [] = Inr []"
| "py_format params None [c] =
     (if c = CHR ''{'' then Inl (Raises (ValueError (''Single '' @ sq @ ''{'' @ sq @ '' encountered in format string'')))
      else if c = CHR ''}'' then Inl (Raises (ValueError (''Single '' @ sq @ ''}'' @ sq @ '' encountered in format string'')))
      else Inr [c])"
| "py_format params None (c # d # ds) =
     (if c = CHR ''{'' then
        (if d = CHR ''{'' then prepend ''{'' (py_format params None ds)
         else py_format params (Some []) (d # ds))
      else if c = CHR ''}'' then
        (if d = CHR ''}'' then prepend ''}'' (py_format params None ds)
         else Inl (Raises (ValueError (''Single '' @ sq @ ''}'' @ sq @ '' encountered in format string''))))
      else prepend [c] (py_format params None (d # ds)))"
| "py_format params (Some name) [] =
     Inl (Raises (ValueError (''expected '' @ sq @ ''}'' @ sq @ '' before end of string'')))"
| "py_format params (Some name) (c # cs) =
     (if c = CHR ''}'' then
        (if name = [] then Inl (Raises IndexError)
         else if CHR ''.'' \<in> set name then Inl NotModelled
         else case get_integer 0 name of
                TooManyDigits \<Rightarrow>
                  Inl (Raises (ValueError ''Too many decimal digits in format string''))
              | Index i \<Rightarrow> Inl (Raises IndexError)
              | NotInteger \<Rightarrow>
                  (case map_of params name of
                     None \<Rightarrow> Inl (Raises (KeyError name))
                   | Some v \<Rightarrow> prepend v (py_format params None cs)))
      else if c = CHR ''{'' then Inl (Raises (ValueError (''unexpected '' @ sq @ ''{'' @ sq @ '' in field name'')))
      else if c = CHR '':'' \<or> c = CHR ''!'' \<or> c = CHR ''['' then Inl NotModelled
      else py_format params (Some (name @ [c])) cs)"

text \<open>
  The part of \<^verbatim>\<open>execute_quick_command\<close> that builds the command from the template: the
  command, or the message returned instead, or the exception that leaves the method.
\<close>

definition resolve_template :: "string \<Rightarrow> string \<Rightarrow> string list \<Rightarrow> format_error + (message_text + string)" where
  "resolve_template cmd_name cmd_template args =
     (if CHR ''{'' \<in> set cmd_template \<and> CHR ''}'' \<in> set cmd_template then
        let param_names = finditer param_pattern cmd_template
        in if length args < length param_names then Inr (Inl (NeedsParams cmd_name param_names))
           else
             let params = bind_params [] param_names args
             in case py_format params None cmd_template of
                  Inl (Raises (KeyError k)) \<Rightarrow> Inr (Inl (MissingParam k))
                | Inl e \<Rightarrow> Inl e
                | Inr cmd \<Rightarrow> Inr (Inr cmd)
      else Inr (Inr cmd_template))"

text \<open>
  The template of a quick command: a custom command of the configuration comes before a
  predefined one of the same name.
\<close>

definition lookup_template :: "(string \<times> string) list \<Rightarrow> string \<Rightarrow> string option" where
  "lookup_template custom cmd_name =
     (case map_of custom cmd_name of
        Some t \<Rightarrow> Some t
      | None \<Rightarrow> map_of QUICK_COMMANDS cmd_name)"

definition resolve :: "(string \<times> string) list \<Rightarrow> string \<Rightarrow> string list \<Rightarrow> format_error + (message_text + string)" where
  "resolve custom cmd_name args =
     (case lookup_template custom cmd_name of
        None \<Rightarrow> Inr (Inl (Unavailable cmd_name (sort (map fst QUICK_COMMANDS @ map fst custom))))
      | Some cmd_template \<Rightarrow> resolve_template cmd_name cmd_template args)"

text \<open>
  \<^verbatim>\<open>execute_quick_command\<close>: the command built from the template goes to
  \<^verbatim>\<open>execute_command\<close>; a message or an exception ends the method with the state unchanged.
\<close>

definition execute_quick_command ::
  "env \<Rightarrow> string \<Rightarrow> string list \<Rightarrow> agent \<times> world \<Rightarrow> (format_error + message_text) \<times> agent \<times> world" where
  "execute_quick_command env cmd_name args s =
     (case s of (a, w) \<Rightarrow>
        case resolve (custom_commands (config a)) cmd_name args of
          Inl e \<Rightarrow> (Inl e, a, w)
        | Inr (Inl msg) \<Rightarrow> (Inr msg, a, w)
        | Inr (Inr cmd) \<Rightarrow>
            (case execute_command env cmd (a, w) of
               (Inl e, a, w) \<Rightarrow> (Inl (Raises e), a, w)
             | (Inr msg, a, w) \<Rightarrow> (Inr msg, a, w)))"

text \<open>
  A template written from its parts: the text before the first placeholder, then each
  placeholder name with the text that follows it. \<open>fill\<close> is the same text with a value
  in the place of each placeholder.
\<close>

fun render :: "string \<Rightarrow> (string \<times> string) list \<Rightarrow> string" where
  "render lit [] = lit"
| "render lit ((name, after) # segs) = lit @ ''{'' @ name @ ''}'' @ render after segs"

fun fill :: "(string \<Rightarrow> string) \<Rightarrow> string \<Rightarrow> (string \<times> string) list \<Rightarrow> string" where
  "fill v lit [] = lit"
| "fill v lit ((name, after) # segs) = lit @ v name @ fill v after segs"

definition brace_free :: "string \<Rightarrow> bool" where
  "brace_free s = (\<not> list_ex (\<lambda>c. c = CHR ''{'' \<or> c = CHR ''}'') s)"

text \<open>
  A placeholder name that is a plain name: not empty, not read as a number (some
  character that is no digit comes before the digits are too many), without markup.
\<close>

definition plain_name :: "string \<Rightarrow> bool" where
  "plain_name n =
     (n \<noteq> [] \<and> get_integer 0 n = NotInteger \<and>
      \<not> list_ex (\<lambda>c. c = CHR ''{'' \<or> c = CHR ''}'' \<or> c = CHR '':'' \<or> c = CHR ''!'' \<or>
                      c = CHR ''['' \<or> c = CHR ''.'') n)"

definition plain_template :: "string \<Rightarrow> (string \<times> string) list \<Rightarrow> bool" where
  "plain_template lit segs =
     (brace_free lit \<and> list_all (\<lambda>seg. plain_name (fst seg) \<and> brace_free (snd seg)) segs)"

text \<open>
  The value bound to a placeholder name when the placeholders \<open>names\<close>, in their order,
  meet the arguments \<open>args\<close>: the argument at the position of the last occurrence of the
  name.
\<close>

definition bound_value :: "string list \<Rightarrow> string list \<Rightarrow> string \<Rightarrow> string" where
  "bound_value names args name =
     (case map_of (rev (zip names args)) name of Some v \<Rightarrow> v | None \<Rightarrow> [])"

section \<open>The directives of a response (mistral\_api\_agent\_v05)\<close>

text \<open>
  The lazy group \<^verbatim>\<open>(.*?)\<close> followed by a closing tag: the shortest text up to an occurrence
  of the closing tag. With the flag \<^verbatim>\<open>re.DOTALL\<close> the dot matches every character, without
  it every character but the newline. The result is the group and the number of characters
  of the group and the closing tag.
\<close>

fun lazy_until :: "bool \<Rightarrow> string \<Rightarrow> string \<Rightarrow> string \<Rightarrow> (string \<times> nat) option" where
  "lazy_until dotall closing body [] = None"
| "lazy_until dotall closing body (c # cs) =
     (if startswith (c # cs) closing then Some (body, length body + length closing)
      else if \<not> dotall \<and> c = CHR 0x0A then None
      else lazy_until dotall closing (body @ [c]) cs)"

text \<open>
  \<^verbatim>\<open>\s+(\w+)\s+([^\]]+)\]\<close>, the rest of an opening tag with two groups. Each greedy run
  takes all it can; only the second run of white space gives one character back, when the
  closing bracket follows it at once, and this character is then the second group.
\<close>

definition header :: "string \<Rightarrow> ((string \<times> string) \<times> nat) option" where
  "header s =
     (let w1 = takeWhile is_space s; r1 = dropWhile is_space s;
          kind = takeWhile is_word r1; r2 = dropWhile is_word r1;
          w2 = takeWhile is_space r2; r3 = dropWhile is_space r2;
          g = takeWhile (\<lambda>c. c \<noteq> CHR '']'') r3; r4 = dropWhile (\<lambda>c. c \<noteq> CHR '']'') r3
      in if w1 = [] \<or> kind = [] \<or> w2 = [] \<or> r4 = [] then None
         else if g \<noteq> [] then
           Some ((kind, g), length w1 + length kind + length w2 + length g + 1)
         else if 2 \<le> length w2 then
           Some ((kind, [last w2]), length w1 + length kind + length w2 + 1)
         else None)"

text \<open>\<^verbatim>\<open>\s+(\w+)(?:\s+([^\]]+))?\]\<close>, the rest of an opening tag whose second group is optional.\<close>

definition header_opt :: "string \<Rightarrow> ((string \<times> string option) \<times> nat) option" where
  "header_opt s =
     (let w1 = takeWhile is_space s; r1 = dropWhile is_space s;
          name = takeWhile is_word r1; r2 = dropWhile is_word r1;
          w2 = takeWhile is_space r2; r3 = dropWhile is_space r2;
          g = takeWhile (\<lambda>c. c \<noteq> CHR '']'') r3; r4 = dropWhile (\<lambda>c. c \<noteq> CHR '']'') r3
      in if w1 = [] \<or> name = [] then None
         else if w2 \<noteq> [] \<and> r4 \<noteq> [] \<and> g \<noteq> [] then
           Some ((name, Some g), length w1 + length name + length w2 + length g + 1)
         else if 2 \<le> length w2 \<and> r4 \<noteq> [] then
           Some ((name, Some [last w2]), length w1 + length name + length w2 + 1)
         else if startswith r2 '']'' then
           Some ((name, None), length w1 + length name + 1)
         else None)"

text \<open>
  The five patterns of \<^verbatim>\<open>process_response\<close>. The patterns with a body take the flag
  \<^verbatim>\<open>re.DOTALL\<close> as an argument: \<^verbatim>\<open>re.finditer\<close> is called with it, \<^verbatim>\<open>re.sub\<close> without.
\<close>

definition exec_pattern :: "bool \<Rightarrow> string matcher" where
  "exec_pattern dotall s =
     (if startswith s ''[EXEC]'' then
        (case lazy_until dotall ''[/EXEC]'' [] (drop 6 s) of
           None \<Rightarrow> None
         | Some (body, n) \<Rightarrow> Some (body, 6 + n))
      else None)"

definition script_pattern :: "bool \<Rightarrow> (string \<times> string \<times> string) matcher" where
  "script_pattern dotall s =
     (if startswith s ''[SCRIPT'' then
        (case header (drop 7 s) of
           None \<Rightarrow> None
         | Some ((kind, name), n) \<Rightarrow>
             (case lazy_until dotall ''[/SCRIPT]'' [] (drop (7 + n) s) of
                None \<Rightarrow> None
              | Some (body, k) \<Rightarrow> Some ((kind, name, body), 7 + n + k)))
      else None)"

definition template_pattern :: "(string \<times> string) matcher" where
  "template_pattern s =
     (if startswith s ''[TEMPLATE'' then
        (case header (drop 9 s) of
           None \<Rightarrow> None
         | Some (groups, n) \<Rightarrow> Some (groups, 9 + n))
      else None)"

definition quickcmd_pattern :: "(string \<times> string option) matcher" where
  "quickcmd_pattern s =
     (if startswith s ''[QUICKCMD'' then
        (case header_opt (drop 9 s) of
           None \<Rightarrow> None
         | Some (groups, n) \<Rightarrow> Some (groups, 9 + n))
      else None)"

definition devops_pattern :: "(string \<times> string option) matcher" where
  "devops_pattern s =
     (if startswith s ''[DEVOPS'' then
        (case header_opt (drop 7 s) of
           None \<Rightarrow> None
         | Some (groups, n) \<Rightarrow> Some (groups, 7 + n))
      else None)"

text \<open>What the loops of \<^verbatim>\<open>process_response\<close> make of the matches.\<close>

datatype directive =
    Exec string
  | Script string string string
  | Template string string
  | QuickCommand string "string list"
  | ToolCall string "string list"

definition split_args :: "string option \<Rightarrow> string list" where
  "split_args g = (case g of None \<Rightarrow> [] | Some text \<Rightarrow> if text = [] then [] else split (strip text))"

definition exec_directives :: "string \<Rightarrow> directive list" where
  "exec_directives response = map (\<lambda>body. Exec (strip body)) (finditer (exec_pattern True) response)"

definition script_directives :: "string \<Rightarrow> directive list" where
  "script_directives response =
     map (\<lambda>(kind, name, body). Script (strip kind) (strip name) (strip body))
       (finditer (script_pattern True) response)"

definition template_directives :: "string \<Rightarrow> directive list" where
  "template_directives response =
     map (\<lambda>(kind, name). Template (strip kind) (strip name)) (finditer template_pattern response)"

definition quickcmd_directives :: "string \<Rightarrow> directive list" where
  "quickcmd_directives response =
     map (\<lambda>(name, g). QuickCommand (strip name) (split_args g)) (finditer quickcmd_pattern response)"

definition devops_directives :: "string \<Rightarrow> directive list" where
  "devops_directives response =
     map (\<lambda>(name, g). ToolCall (strip name) (split_args g)) (finditer devops_pattern response)"

text \<open>The directives in the order in which \<^verbatim>\<open>process_response\<close> carries them out.\<close>

definition directives :: "string \<Rightarrow> directive list" where
  "directives response =
     exec_directives response @ script_directives response @ template_directives response @
     quickcmd_directives response @ devops_directives response"

text \<open>The text shown to the operator: the five substitutions, then \<^verbatim>\<open>strip\<close>.\<close>

definition prose :: "string \<Rightarrow> string" where
  "prose response =
     (let clean_response = sub_empty (exec_pattern False) response;
          clean_response = sub_empty (script_pattern False) clean_response;
          clean_response = sub_empty template_pattern clean_response;
          clean_response = sub_empty quickcmd_pattern clean_response;
          clean_response = sub_empty devops_pattern clean_response
      in strip clean_response)"

subsection \<open>Carrying out the directives\<close>

definition SCRIPT_EXTENSIONS :: "(string \<times> string) list" where
  "SCRIPT_EXTENSIONS =
     [(''python'', ''.py''),
      (''bash'', ''.sh''),
      (''shell'', ''.sh''),
      (''yaml'', ''.yaml''),
      (''yml'', ''.yml''),
      (''docker'', ''.dockerfile''),
      (''dockerfile'', ''.dockerfile''),
      (''terraform'', ''.tf''),
      (''json'', ''.json''),
      (''js'', ''.js''),
      (''ansible'', ''.yml''),
      (''php'', ''.php''),
      (''ruby'', ''.rb''),
      (''go'', ''.go''),
      (''java'', ''.java''),
      (''c'', ''.c''),
      (''cpp'', ''.cpp''),
      (''csharp'', ''.cs''),
      (''sql'', ''.sql''),
      (''kubernetes'', ''.yaml''),
      (''k8s'', ''.yaml''),
      (''helm'', ''.yaml''),
      (''nginx'', ''.conf''),
      (''apache'', ''.conf''),
      (''systemd'', ''.service''),
      (''prometheus'', ''.yml''),
      (''grafana'', ''.json''),
      (''jenkins'', ''Jenkinsfile''),
      (''gitlab-ci'', ''.gitlab-ci.yml''),
      (''github-workflow'', ''.yml'')]"

definition TEMPLATES :: "(string \<times> string) list" where
  "TEMPLATES =
     [(''docker'', 
         ''FROM alpine:latest'' @ [CHR 0x0A] @
         [CHR 0x0A] @
         ''LABEL maintainer='' @ [CHR 0x22] @ ''Your Name <your.email@example.com>'' @ [CHR 0x22, CHR 0x0A] @
         [CHR 0x0A] @
         ''RUN apk --no-cache add ca-certificates'' @ [CHR 0x0A] @
         [CHR 0x0A] @
         ''WORKDIR /app'' @ [CHR 0x0A] @
         [CHR 0x0A] @
         ''COPY . .'' @ [CHR 0x0A] @
         [CHR 0x0A] @
         ''CMD ['' @ [CHR 0x22] @ ''sh'' @ [CHR 0x22] @ '']'' @ [CHR 0x0A]),
      (''terraform'', 
         ''provider '' @ [CHR 0x22] @ ''aws'' @ [CHR 0x22] @ '' {'' @ [CHR 0x0A] @
         ''  region = '' @ [CHR 0x22] @ ''us-west-2'' @ [CHR 0x22, CHR 0x0A] @
         ''}'' @ [CHR 0x0A] @
         [CHR 0x0A] @
         ''resource '' @ [CHR 0x22] @ ''aws_instance'' @ [CHR 0x22] @ '' '' @ [CHR 0x22] @ ''example'' @ [CHR 0x22] @ '' {'' @ [CHR 0x0A] @
         ''  ami           = '' @ [CHR 0x22] @ ''ami-0c55b159cbfafe1f0'' @ [CHR 0x22, CHR 0x0A] @
         ''  instance_type = '' @ [CHR 0x22] @ ''t2.micro'' @ [CHR 0x22, CHR 0x0A] @
         ''  '' @ [CHR 0x0A] @
         ''  tags = {'' @ [CHR 0x0A] @
         ''    Name = '' @ [CHR 0x22] @ ''example-instance'' @ [CHR 0x22, CHR 0x0A] @
         ''  }'' @ [CHR 0x0A] @
         ''}'' @ [CHR 0x0A]),
      (''kubernetes'', 
         ''apiVersion: apps/v1'' @ [CHR 0x0A] @
         ''kind: Deployment'' @ [CHR 0x0A] @
         ''metadata:'' @ [CHR 0x0A] @
         ''  name: nginx-deployment'' @ [CHR 0x0A] @
         ''  labels:'' @ [CHR 0x0A] @
         ''    app: nginx'' @ [CHR 0x0A] @
         ''spec:'' @ [CHR 0x0A] @
         ''  replicas: 3'' @ [CHR 0x0A] @
         ''  selector:'' @ [CHR 0x0A] @
         ''    matchLabels:'' @ [CHR 0x0A] @
         ''      app: nginx'' @ [CHR 0x0A] @
         ''  template:'' @ [CHR 0x0A] @
         ''    metadata:'' @ [CHR 0x0A] @
         ''      labels:'' @ [CHR 0x0A] @
         ''        app: nginx'' @ [CHR 0x0A] @
         ''    spec:'' @ [CHR 0x0A] @
         ''      containers:'' @ [CHR 0x0A] @
         ''      - name: nginx'' @ [CHR 0x0A] @
         ''        image: nginx:1.14.2'' @ [CHR 0x0A] @
         ''        ports:'' @ [CHR 0x0A] @
         ''        - containerPort: 80'' @ [CHR 0x0A]),
      (''ansible'', 
         ''---'' @ [CHR 0x0A] @
         ''- name: Example Playbook'' @ [CHR 0x0A] @
         ''  hosts: all'' @ [CHR 0x0A] @
         ''  become: yes'' @ [CHR 0x0A] @
         ''  tasks:'' @ [CHR 0x0A] @
         ''    - name: Ensure a package is installed'' @ [CHR 0x0A] @
         ''      apt:'' @ [CHR 0x0A] @
         ''        name: nginx'' @ [CHR 0x0A] @
         ''        state: present'' @ [CHR 0x0A] @
         ''      when: ansible_os_family == '' @ [CHR 0x22] @ ''Debian'' @ [CHR 0x22, CHR 0x0A] @
         ''    '' @ [CHR 0x0A] @
         ''    - name: Ensure a service is running'' @ [CHR 0x0A] @
         ''      service:'' @ [CHR 0x0A] @
         ''        name: nginx'' @ [CHR 0x0A] @
         ''        state: started'' @ [CHR 0x0A] @
         ''        enabled: yes'' @ [CHR 0x0A])]"

definition executable_kinds :: "string list" where
  "executable_kinds = [''bash'', ''shell'', ''python'', ''sh'', ''py'']"

definition with_extension :: "string \<Rightarrow> string \<Rightarrow> string" where
  "with_extension kind filename =
     (if CHR ''.'' \<notin> set filename then
        (case map_of SCRIPT_EXTENSIONS kind of Some ext \<Rightarrow> filename @ ext | None \<Rightarrow> filename)
      else filename)"

text \<open>\<^verbatim>\<open>save_script\<close> returns the path of the file, or the text of its failure message.\<close>

definition save_script :: "env \<Rightarrow> string \<Rightarrow> string \<Rightarrow> string \<Rightarrow> agent \<times> world \<Rightarrow> string \<times> agent \<times> world" where
  "save_script env script_type filename script_content s =
     (case s of (a, w) \<Rightarrow>
        let filename = with_extension (lower script_type) filename;
            filepath = path_join (expanduser env ''~/tech/scripts'') filename
        in if write_ok env (events w) filepath then
             (let w = log (WriteFile filepath script_content) w;
                  w = (if lower script_type \<in> set executable_kinds then log (Chmod filepath) w else w);
                  w = log (LogInfo filepath) w
              in (filepath, a, w))
           else (''Erreur lors de la sauvegarde: '' @ error_text env (events w), a,
                 log (LogError (error_text env (events w))) w))"

definition create_from_template :: "env \<Rightarrow> string \<Rightarrow> string \<Rightarrow> agent \<times> world \<Rightarrow> message_text \<times> agent \<times> world" where
  "create_from_template env template_type filename s =
     (case s of (a, w) \<Rightarrow>
        let template_type = lower template_type
        in case map_of TEMPLATES template_type of
             None \<Rightarrow> (TemplateUnavailable template_type (map fst TEMPLATES), a, w)
           | Some template_text \<Rightarrow>
               let filename = with_extension template_type filename;
                   filepath = path_join (current_dir a) filename
               in if write_ok env (events w) filepath then
                    (TemplateCreated template_type filepath, a,
                     log (LogInfo filepath) (log (WriteFile filepath template_text) w))
                  else (TemplateError (error_text env (events w)), a,
                        log (LogError (error_text env (events w))) w))"

text \<open>
  One directive. A script of an executable kind is offered to the operator and, on yes,
  handed to \<^verbatim>\<open>execute_command\<close>. A built-in tool is left to the surroundings: the model
  records the call and takes its text from \<open>tool\<close>.
\<close>

definition lift_result ::
  "(py_exn + message_text) \<times> agent \<times> world \<Rightarrow> (format_error + message_text) \<times> agent \<times> world" where
  "lift_result x =
     (case x of (Inl e, a, w) \<Rightarrow> (Inl (Raises e), a, w) | (Inr m, a, w) \<Rightarrow> (Inr m, a, w))"

fun run_directive :: "env \<Rightarrow> directive \<Rightarrow> agent \<times> world \<Rightarrow> (format_error + message_text) \<times> agent \<times> world" where
  "run_directive env (Exec command) s = lift_result (execute_command env command s)"
| "run_directive env (Script script_type script_name script_content) s =
     (case save_script env script_type script_name script_content s of
        (filepath, a, w) \<Rightarrow>
          if lower script_type \<in> set executable_kinds then
            (let yes = run_script env (events w) filepath;
                 w = log (AskRunScript filepath) w
             in if yes then
                  (let cmd = (if lower script_type \<in> set [''python'', ''py'']
                              then ''python3 '' @ filepath else filepath)
                   in case execute_command env cmd (a, w) of
                        (Inl e, a, w) \<Rightarrow> (Inl (Raises e), a, w)
                      | (Inr m, a, w) \<Rightarrow> (Inr (ScriptCreated filepath (Some m)), a, w))
                else (Inr (ScriptCreated filepath None), a, w))
          else (Inr (ScriptCreated filepath None), a, w))"
| "run_directive env (Template template_type filename) s =
     (case create_from_template env template_type filename s of (m, a, w) \<Rightarrow> (Inr m, a, w))"
| "run_directive env (QuickCommand cmd_name args) s = execute_quick_command env cmd_name args s"
| "run_directive env (ToolCall tool_name args) s =
     (case s of (a, w) \<Rightarrow> (Inr (ToolOutput (tool env (events w) tool_name args)), a, log (Tool tool_name args) w))"

text \<open>The directives one after the other; an exception ends the run.\<close>

fun run_directives ::
  "env \<Rightarrow> directive list \<Rightarrow> agent \<times> world \<Rightarrow> (format_error + message_text list) \<times> agent \<times> world" where
  "run_directives env [] s = (Inr [], s)"
| "run_directives env (d # ds) s =
     (case run_directive env d s of
        (Inl e, s) \<Rightarrow> (Inl e, s)
      | (Inr m, s) \<Rightarrow>
          (case run_directives env ds s of
             (Inl e, s) \<Rightarrow> (Inl e, s)
           | (Inr ms, s) \<Rightarrow> (Inr (m # ms), s)))"

text \<open>
  \<^verbatim>\<open>process_response\<close>: the results of the directives and the text shown at the end.
\<close>

definition process_response ::
  "env \<Rightarrow> string \<Rightarrow> agent \<times> world \<Rightarrow> (format_error + message_text list \<times> string) \<times> agent \<times> world" where
  "process_response env response s =
     (case run_directives env (directives response) s of
        (Inl e, s) \<Rightarrow> (Inl e, s)
      | (Inr ms, s) \<Rightarrow> (Inr (ms, prose response), s))"

section \<open>Well-formed responses\<close>

text \<open>
  A response written from its parts: pieces of prose and tags. A tag is written in its
  plain form, with single blanks in its opening tag. The parts are well formed when no
  prose and no body holds an opening bracket, a kind or name is a non-empty word, and a
  file name or an argument is a non-empty text without white space and brackets.
\<close>

datatype item = Prose string | Tag directive

definition open_tag :: "directive \<Rightarrow> string" where
  "open_tag d =
     (case d of
        Exec c \<Rightarrow> ''[EXEC]''
      | Script k n b \<Rightarrow> ''[SCRIPT''
      | Template k n \<Rightarrow> ''[TEMPLATE''
      | QuickCommand n args \<Rightarrow> ''[QUICKCMD''
      | ToolCall n args \<Rightarrow> ''[DEVOPS'')"

definition spaced :: "string list \<Rightarrow> string" where
  "spaced args = concat (map (\<lambda>arg. '' '' @ arg) args)"

definition inner :: "directive \<Rightarrow> string" where
  "inner d =
     (case d of
        Exec c \<Rightarrow> c
      | Script k n b \<Rightarrow> '' '' @ k @ '' '' @ n @ '']'' @ b
      | Template k n \<Rightarrow> '' '' @ k @ '' '' @ n @ '']''
      | QuickCommand n args \<Rightarrow> '' '' @ n @ spaced args @ '']''
      | ToolCall n args \<Rightarrow> '' '' @ n @ spaced args @ '']'')"

definition close_tag :: "directive \<Rightarrow> string" where
  "close_tag d =
     (case d of
        Exec c \<Rightarrow> ''[/EXEC]''
      | Script k n b \<Rightarrow> ''[/SCRIPT]''
      | _ \<Rightarrow> [])"

definition render_tag :: "directive \<Rightarrow> string" where
  "render_tag d = open_tag d @ inner d @ close_tag d"

fun render_doc :: "item list \<Rightarrow> string" where
  "render_doc [] = []"
| "render_doc (Prose p # items) = p @ render_doc items"
| "render_doc (Tag d # items) = render_tag d @ render_doc items"

definition no_open :: "string \<Rightarrow> bool" where
  "no_open s = (\<not> list_ex (\<lambda>c. c = CHR ''['') s)"

definition plain_word :: "string \<Rightarrow> bool" where
  "plain_word s = (s \<noteq> [] \<and> list_all is_word s)"

definition plain_token :: "string \<Rightarrow> bool" where
  "plain_token s = (s \<noteq> [] \<and> \<not> list_ex (\<lambda>c. is_space c \<or> c = CHR ''['' \<or> c = CHR '']'') s)"

definition wf_tag :: "directive \<Rightarrow> bool" where
  "wf_tag d =
     (case d of
        Exec c \<Rightarrow> no_open c
      | Script k n b \<Rightarrow> plain_word k \<and> plain_token n \<and> no_open b
      | Template k n \<Rightarrow> plain_word k \<and> plain_token n
      | QuickCommand n args \<Rightarrow> plain_word n \<and> list_all plain_token args
      | ToolCall n args \<Rightarrow> plain_word n \<and> list_all plain_token args)"

definition wf_item :: "item \<Rightarrow> bool" where
  "wf_item i = (case i of Prose p \<Rightarrow> no_open p | Tag d \<Rightarrow> wf_tag d)"

text \<open>The bodies of the tags are on one line.\<close>

definition one_line :: "item \<Rightarrow> bool" where
  "one_line i =
     (case i of
        Tag (Exec c) \<Rightarrow> CHR 0x0A \<notin> set c
      | Tag (Script k n b) \<Rightarrow> CHR 0x0A \<notin> set b
      | _ \<Rightarrow> True)"

text \<open>The tags and the prose of the parts, in their order.\<close>

fun tags_of :: "item list \<Rightarrow> directive list" where
  "tags_of [] = []"
| "tags_of (Prose p # items) = tags_of items"
| "tags_of (Tag d # items) = d # tags_of items"

fun prose_of :: "item list \<Rightarrow> string" where
  "prose_of [] = []"
| "prose_of (Prose p # items) = p @ prose_of items"
| "prose_of (Tag d # items) = prose_of items"

text \<open>A tag as the directive that the parser makes of it: the body is stripped.\<close>

definition parsed :: "directive \<Rightarrow> directive" where
  "parsed d =
     (case d of
        Exec c \<Rightarrow> Exec (strip c)
      | Script k n b \<Rightarrow> Script k n (strip b)
      | _ \<Rightarrow> d)"

definition is_exec :: "directive \<Rightarrow> bool" where
  "is_exec d = (case d of Exec c \<Rightarrow> True | _ \<Rightarrow> False)"

definition is_script :: "directive \<Rightarrow> bool" where
  "is_script d = (case d of Script k n b \<Rightarrow> True | _ \<Rightarrow> False)"

definition is_template :: "directive \<Rightarrow> bool" where
  "is_template d = (case d of Template k n \<Rightarrow> True | _ \<Rightarrow> False)"

definition is_quickcmd :: "directive \<Rightarrow> bool" where
  "is_quickcmd d = (case d of QuickCommand n args \<Rightarrow> True | _ \<Rightarrow> False)"

definition is_tool :: "directive \<Rightarrow> bool" where
  "is_tool d = (case d of ToolCall n args \<Rightarrow> True | _ \<Rightarrow> False)"

text \<open>The directives grouped by kind, in the order of the loops, each group in its order.\<close>

definition by_kind :: "directive list \<Rightarrow> directive list" where
  "by_kind ds =
     filter is_exec ds @ filter is_script ds @ filter is_template ds @ filter is_quickcmd ds @
     filter is_tool ds"

text \<open>The place of a kind in the order of the loops.\<close>

definition kind_rank :: "directive \<Rightarrow> nat" where
  "kind_rank d =
     (case d of
        Exec c \<Rightarrow> 0
      | Script k n b \<Rightarrow> 1
      | Template k n \<Rightarrow> 2
      | QuickCommand n args \<Rightarrow> 3
      | ToolCall n args \<Rightarrow> 4)"

text \<open>
  The groups that each pattern finds in a tag of its own kind, and the parts that a
  substitution with this pattern leaves.
\<close>

definition pick_exec :: "directive \<Rightarrow> string option" where
  "pick_exec d = (case d of Exec c \<Rightarrow> Some c | _ \<Rightarrow> None)"

definition pick_script :: "directive \<Rightarrow> (string \<times> string \<times> string) option" where
  "pick_script d = (case d of Script k n b \<Rightarrow> Some (k, n, b) | _ \<Rightarrow> None)"

definition pick_template :: "directive \<Rightarrow> (string \<times> string) option" where
  "pick_template d = (case d of Template k n \<Rightarrow> Some (k, n) | _ \<Rightarrow> None)"

definition args_group :: "string list \<Rightarrow> string option" where
  "args_group args = (if args = [] then None else Some (tl (spaced args)))"

definition pick_quickcmd :: "directive \<Rightarrow> (string \<times> string option) option" where
  "pick_quickcmd d = (case d of QuickCommand n args \<Rightarrow> Some (n, args_group args) | _ \<Rightarrow> None)"

definition pick_devops :: "directive \<Rightarrow> (string \<times> string option) option" where
  "pick_devops d = (case d of ToolCall n args \<Rightarrow> Some (n, args_group args) | _ \<Rightarrow> None)"

text \<open>The texts with which the five patterns begin.\<close>

definition opening_literals :: "string list" where
  "opening_literals = [''[EXEC]'', ''[SCRIPT'', ''[TEMPLATE'', ''[QUICKCMD'', ''[DEVOPS'']"

definition untagged :: "(directive \<Rightarrow> 'g option) \<Rightarrow> item \<Rightarrow> bool" where
  "untagged pick i = (case i of Prose p \<Rightarrow> True | Tag d \<Rightarrow> pick d = None)"

text \<open>A response with two commands and a template between pieces of prose.\<close>

definition example_items :: "item list" where
  "example_items =
     [Prose ''Going up. '', Tag (Exec ''cd ..''), Prose '' Then: '', Tag (Exec ''pwd''),
      Tag (Template ''bash'' ''x.sh'')]"

section \<open>The confirmation gate, read off the events\<close>

text \<open>
  \<open>gated env cmd dir seen es\<close> checks the events \<open>es\<close> that follow the events \<open>seen\<close>:
  every subprocess started by \<^verbatim>\<open>subprocess.Popen\<close> runs the command \<open>cmd\<close> in the directory
  \<open>dir\<close>, and either the classifier finds \<open>cmd\<close> not dangerous, or it finds it dangerous
  and the event just before is the confirmation prompt for \<open>cmd\<close>, which the operator
  answered with yes.
\<close>

fun gated :: "env \<Rightarrow> string \<Rightarrow> string \<Rightarrow> event list \<Rightarrow> event list \<Rightarrow> bool" where
  "gated env cmd dir seen [] = True"
| "gated env cmd dir seen (e # es) =
     ((case e of
         Popen c d \<Rightarrow>
           c = cmd \<and> d = dir \<and>
           (is_dangerous_command cmd = Inr False \<or>
            (is_dangerous_command cmd = Inr True \<and> seen \<noteq> [] \<and> last seen = Confirm cmd \<and>
             confirm env (butlast seen) cmd))
       | _ \<Rightarrow> True) \<and>
      gated env cmd dir (seen @ [e]) es)"

text \<open>An agent with an alias and a custom quick command whose expansions are dangerous.\<close>

definition example_agent_custom :: agent where
  "example_agent_custom =
     example_agent\<lparr>config :=
       \<lparr>aliases = [(''clean'', ''rm -rf'')], custom_commands = [(''wipe'', ''rm -rf {path}'')],
        command_history = []\<rparr>\<rparr>"


section \<open>Properties of the conversation history\<close>


lemma last_n_pos: "0 < n \<Longrightarrow> last_n n xs = drop (length xs - nat n) xs"
  by (simp add: last_n_def slice_from_def nat_diff_distrib')

lemma last_n_zero: "last_n 0 xs = xs"
  by (simp add: last_n_def slice_from_def)

lemma messages_save_history_cm: "messages (save_history_cm w cm) = messages cm"
  by (simp add: save_history_cm_def)

lemma history_size_save_history_cm: "history_size (save_history_cm w cm) = history_size cm"
  by (simp add: save_history_cm_def)

lemma messages_add_message:
  assumes "0 < history_size cm"
  shows "messages (add_message now w r c cm) =
         drop (Suc (length (messages cm)) - nat (history_size cm))
              (messages cm @ [\<lparr>role = r, content = c, timestamp = now\<rparr>])"
proof -
  let ?msgs = "messages cm @ [\<lparr>role = r, content = c, timestamp = now\<rparr>]"
  have "messages (add_message now w r c cm) =
        (if int (length ?msgs) > history_size cm then last_n (history_size cm) ?msgs else ?msgs)"
    by (simp add: add_message_def Let_def messages_save_history_cm)
  also have "\<dots> = drop (length ?msgs - nat (history_size cm)) ?msgs"
    using assms by (auto simp: last_n_pos simp del: drop_append)
  finally show ?thesis by simp
qed

lemma history_size_add_message: "history_size (add_message now w r c cm) = history_size cm"
  by (simp add: add_message_def Let_def history_size_save_history_cm)


lemma messages_add_messages:
  assumes "0 < history_size cm" and "int (length (messages cm)) \<le> history_size cm"
  shows "messages (add_messages calls cm) =
         drop (length (messages cm) + length calls - nat (history_size cm))
              (messages cm @ map call_message calls)"
  using assms
proof (induction calls arbitrary: cm)
  case Nil
  then show ?case by simp
next
  case (Cons call calls)
  obtain now w r c where call: "call = (now, w, r, c)" by (cases call) auto
  let ?cm = "add_message now w r c cm"
  let ?m = "\<lparr>role = r, content = c, timestamp = now\<rparr>"
  let ?k = "Suc (length (messages cm)) - nat (history_size cm)"
  let ?all = "messages cm @ ?m # map call_message calls"
  have hs: "history_size ?cm = history_size cm" by (simp add: history_size_add_message)
  have m1: "messages ?cm = drop ?k (messages cm @ [?m])"
    using Cons.prems(1) by (rule messages_add_message)
  have len1: "length (messages ?cm) = Suc (length (messages cm)) - ?k"
    by (simp add: m1)
  have "drop ?k ((messages cm @ [?m]) @ map call_message calls) =
        drop ?k (messages cm @ [?m]) @ map call_message calls"
    by (simp only: drop_append) simp
  then have app: "messages ?cm @ map call_message calls = drop ?k ?all"
    by (simp only: m1) simp
  have inv: "int (length (messages ?cm)) \<le> history_size ?cm"
    using Cons.prems by (simp add: len1 hs)
  have "messages (add_messages (call # calls) cm) = messages (add_messages calls ?cm)"
    by (simp add: call)
  also have "\<dots> = drop (length (messages ?cm) + length calls - nat (history_size cm))
                      (messages ?cm @ map call_message calls)"
    using Cons.IH [of ?cm] Cons.prems(1) inv by (simp only: hs)
  also have "\<dots> = drop (length (messages ?cm) + length calls - nat (history_size cm) + ?k) ?all"
    by (simp only: app drop_drop)
  also have "length (messages ?cm) + length calls - nat (history_size cm) + ?k =
             length (messages cm) + length (call # calls) - nat (history_size cm)"
    using Cons.prems by (simp only: len1) auto
  finally show ?case by (simp add: call call_message_def)
qed

text \<open>
  With a positive bound the history holds at most \<open>history_size\<close> messages after every
  call, and a sequence of calls leaves the most recent messages in their order.
\<close>

lemma add_message_bounded:
  assumes "0 < history_size cm"
  shows "int (length (messages (add_message now w r c cm))) \<le> history_size cm"
  using assms by (simp add: messages_add_message)

lemma add_messages_from_empty:
  assumes "0 < history_size cm" and "messages cm = []"
  shows "messages (add_messages calls cm) = drop (length calls - nat (history_size cm)) (map call_message calls)"
  using messages_add_messages [OF assms(1), of calls] assms by simp

lemma add_messages_five_more:
  assumes "0 < history_size cm" and "messages cm = []" and "length calls = nat (history_size cm) + 5"
  shows "messages (add_messages calls cm) = drop 5 (map call_message calls) \<and>
         length (messages (add_messages calls cm)) = nat (history_size cm)"
  using add_messages_from_empty [OF assms(1,2), of calls] assms(3) by simp

lemma record_exchange_bounded: "int (length (record_exchange u a h)) \<le> MAX_HISTORY_ENTRIES * 2"
  by (simp add: record_exchange_def Let_def MAX_HISTORY_ENTRIES_def last_n_pos)

text \<open>
  C6. The bound on the history after \<^verbatim>\<open>add_message\<close> fails when the configured
  \<open>history_size\<close> is \<open>0\<close>: the test \<^verbatim>\<open>len(self.messages) > 0\<close> holds and
  \<^verbatim>\<open>self.messages[-0:]\<close> is the whole list, so the message stays and the history holds one
  message, more than the bound.
\<close>

theorem add_message_zero_bound:
  "messages (add_message ''t'' True ''user'' ''hi''
      \<lparr>messages = [], history_size = 0, session_history = True, history_file = None\<rparr>) =
   [\<lparr>role = ''user'', content = ''hi'', timestamp = ''t''\<rparr>]"
  by (simp add: add_message_def Let_def last_n_zero save_history_cm_def)

section \<open>Properties of the safety classifiers\<close>


lemma contains_single: "contains s [x] \<Longrightarrow> x \<in> set s"
  by (induction s) (auto split: if_splits)

lemma read_token_nonempty:
  "read_token st quoted token toks s = Inr r \<Longrightarrow>
   toks \<noteq> [] \<or> token \<noteq> [] \<or> quoted \<or> (\<exists>q. st = InQuote q) \<or> (\<exists>b. st = InEscape b) \<or>
     (\<exists>c \<in> set s. \<not> shlex_whitespace c) \<Longrightarrow>
   r \<noteq> []"
proof (induction st quoted token toks s rule: read_token.induct)
  case (1 quoted token toks)
  then show ?case by (auto simp: emit_def split: if_splits)
next
  case (2 quoted token toks c cs)
  then show ?case by (auto split: if_splits)
next
  case (3 q quoted token toks)
  then show ?case by simp
next
  case (4 q quoted token toks c cs)
  then show ?case by (auto split: if_splits)
next
  case (5 esc quoted token toks)
  then show ?case by simp
next
  case (6 esc quoted token toks c cs)
  then show ?case by (cases esc) (auto split: if_splits)
next
  case (7 quoted token toks)
  then show ?case by (auto simp: emit_def split: if_splits)
next
  case (8 quoted token toks c cs)
  then show ?case by (auto split: if_splits)
qed

lemma shlex_split_nonempty:
  "shlex_split s = Inr r \<Longrightarrow> x \<in> set s \<Longrightarrow> \<not> shlex_whitespace x \<Longrightarrow> r \<noteq> []"
  unfolding shlex_split_def by (erule read_token_nonempty) blast

lemma redirect_not_safe_safety:
  assumes "contains command ''>''"
  shows "\<not> command_is_safe command"
  using assms by (simp add: command_is_safe_def SAFETY_DANGEROUS_COMMANDS_def Let_def)

lemma check_loop_split:
  "check_loop safe unsafe commands =
     (safe @ filter command_is_safe commands, unsafe @ filter (\<lambda>c. \<not> command_is_safe c) commands)"
  by (induction commands arbitrary: safe unsafe) auto

lemma classify_rm_rf: "is_dangerous_command ''rm -rf /'' = Inr True"
  by code_simp

lemma classify_ls: "is_dangerous_command ''ls -la'' = Inr False"
  by code_simp

lemma classify_etc_redirect: "is_dangerous_command ''echo hi > /etc/passwd'' = Inr True"
  by code_simp

lemma classify_tmp_redirect: "is_dangerous_command ''echo hi > /tmp/out.txt'' = Inr True"
  by code_simp

lemma classify_tmp_redirect_v04:
  "is_dangerous_command_v04 DANGEROUS_COMMANDS_v04 ''echo hi > /tmp/out.txt'' = Inr True"
  by code_simp

lemma classify_tmp_redirect_safety: "\<not> command_is_safe ''echo hi > /tmp/out.txt''"
  by code_simp

lemma redirect_dangerous_v05:
  assumes "contains command ''>''"
  shows "is_dangerous_command command = (case shlex_split command of Inl e \<Rightarrow> Inl e | Inr parts \<Rightarrow> Inr True)"
proof (cases "shlex_split command")
  case (Inl e)
  then show ?thesis by (simp add: is_dangerous_command_def)
next
  case (Inr parts)
  have "CHR ''>'' \<in> set command" using assms by (rule contains_single)
  then have "parts \<noteq> []" using Inr shlex_split_nonempty by (fastforce simp: shlex_whitespace_def)
  then show ?thesis using Inr assms
    by (cases parts) (simp_all add: is_dangerous_command_def)
qed

lemma redirect_dangerous_v04:
  assumes "contains command ''>''"
  shows "is_dangerous_command_v04 dc command =
         (case shlex_split command of Inl e \<Rightarrow> Inl e | Inr parts \<Rightarrow> Inr True)"
proof (cases "shlex_split command")
  case (Inl e)
  moreover have "command \<noteq> []" using assms by auto
  ultimately show ?thesis by (simp add: is_dangerous_command_v04_def)
next
  case (Inr parts)
  have "CHR ''>'' \<in> set command" using assms by (rule contains_single)
  then have "parts \<noteq> []" using Inr shlex_split_nonempty by (fastforce simp: shlex_whitespace_def)
  moreover have "command \<noteq> []" using assms by auto
  ultimately show ?thesis using Inr assms
    by (cases parts) (simp_all add: is_dangerous_command_v04_def)
qed

text \<open>
  C1 (the claim as stated fails). The command \<^verbatim>\<open>echo hi > /tmp/out.txt\<close> redirects to a
  path under no protected prefix and has neither a pipe nor \<^verbatim>\<open>rm\<close>/\<^verbatim>\<open>mv\<close>, and all three
  classifiers mark it dangerous.
\<close>

theorem classify_tmp_redirect_counterexample:
  "is_dangerous_command ''echo hi > /tmp/out.txt'' = Inr True \<and>
   is_dangerous_command_v04 DANGEROUS_COMMANDS_v04 ''echo hi > /tmp/out.txt'' = Inr True \<and>
   \<not> command_is_safe ''echo hi > /tmp/out.txt''"
  by (simp only: classify_tmp_redirect classify_tmp_redirect_v04 classify_tmp_redirect_safety simp_thms)

text \<open>
  C1 (as amended). Every command that contains the character \<^verbatim>\<open>>\<close> is marked dangerous,
  whatever the redirection targets: \<^verbatim>\<open>is_dangerous_command\<close> of both agents returns
  \<open>True\<close> whenever the command tokenizes (and raises the tokenizer's error otherwise), and
  \<^verbatim>\<open>check_command_safety\<close> puts the command among the unsafe ones. In particular
  \<^verbatim>\<open>rm -rf /\<close>, \<^verbatim>\<open>echo hi > /etc/passwd\<close> and \<^verbatim>\<open>echo hi > /tmp/out.txt\<close> are dangerous and
  \<^verbatim>\<open>ls -la\<close> is safe.
\<close>

theorem classify_redirection:
  assumes "contains command ''>''"
  shows "is_dangerous_command command =
           (case shlex_split command of Inl e \<Rightarrow> Inl e | Inr parts \<Rightarrow> Inr True) \<and>
         is_dangerous_command_v04 dc command =
           (case shlex_split command of Inl e \<Rightarrow> Inl e | Inr parts \<Rightarrow> Inr True) \<and>
         \<not> command_is_safe command \<and>
         command \<in> set (snd (check_command_safety (before @ command # after))) \<and>
         is_dangerous_command ''rm -rf /'' = Inr True \<and>
         is_dangerous_command ''echo hi > /etc/passwd'' = Inr True \<and>
         is_dangerous_command ''echo hi > /tmp/out.txt'' = Inr True \<and>
         is_dangerous_command ''ls -la'' = Inr False"
proof -
  have unsafe: "\<not> command_is_safe command"
    using assms by (rule redirect_not_safe_safety)
  then have "command \<in> set (snd (check_command_safety (before @ command # after)))"
    by (simp add: check_command_safety_def check_loop_split)
  then show ?thesis
    using unsafe redirect_dangerous_v05 [OF assms] redirect_dangerous_v04 [OF assms, of dc]
    by (simp only: classify_rm_rf classify_etc_redirect classify_tmp_redirect classify_ls simp_thms)
qed

theorem classify_redirection_witness:
  "contains ''echo hi > /tmp/out.txt'' ''>'' \<and>
   is_dangerous_command ''echo hi > /tmp/out.txt'' = Inr True \<and>
   \<not> command_is_safe ''echo hi > /tmp/out.txt''"
proof -
  have h: "contains ''echo hi > /tmp/out.txt'' ''>''" by code_simp
  have t: "shlex_split ''echo hi > /tmp/out.txt'' = Inr [''echo'', ''hi'', ''>'', ''/tmp/out.txt'']"
    by code_simp
  show ?thesis
    using h classify_redirection [OF h] by (simp add: t)
qed

text \<open>
  C5 (the claim as stated fails). On a command with an unbalanced quote the classifier
  returns no verdict: \<^verbatim>\<open>shlex.split\<close> raises \<^verbatim>\<open>ValueError\<close> and nothing handles it.
\<close>

theorem classify_unbalanced_counterexample:
  "is_dangerous_command (''echo '' @ [CHR 0x22] @ ''unbalanced'') =
     Inl (ValueError ''No closing quotation'')"
  by code_simp

text \<open>
  C5 (as amended). The classifier is a pure function of the command string; when the
  tokenization fails (an unbalanced quote, or a backslash at the end), it raises the
  tokenizer's \<^verbatim>\<open>ValueError\<close> instead of returning a verdict, in both agents.
\<close>

theorem classify_tokenization_failure:
  assumes "shlex_split command = Inl e"
  shows "is_dangerous_command command = Inl e \<and> is_dangerous_command_v04 dc command = Inl e"
proof -
  have "command \<noteq> []" using assms by (auto simp: shlex_split_def emit_def)
  then show ?thesis using assms
    by (simp add: is_dangerous_command_def is_dangerous_command_v04_def)
qed

theorem classify_tokenization_failure_witness:
  "shlex_split (''echo '' @ [CHR 0x22] @ ''unbalanced'') = Inl (ValueError ''No closing quotation'') \<and>
   is_dangerous_command (''echo '' @ [CHR 0x22] @ ''unbalanced'') = Inl (ValueError ''No closing quotation'') \<and>
   is_dangerous_command_v04 DANGEROUS_COMMANDS_v04 (''echo '' @ [CHR 0x22] @ ''unbalanced'') =
     Inl (ValueError ''No closing quotation'')"
proof -
  have h: "shlex_split (''echo '' @ [CHR 0x22] @ ''unbalanced'') = Inl (ValueError ''No closing quotation'')"
    by code_simp
  show ?thesis using h classify_tokenization_failure [OF h] by simp
qed

text \<open>When the tokenization succeeds the classifier returns a verdict.\<close>

lemma classify_total_on_tokens:
  assumes "shlex_split command = Inr parts"
  shows "\<exists>b. is_dangerous_command command = Inr b"
  using assms by (cases parts) (auto simp: is_dangerous_command_def)

section \<open>Properties of the execution engine\<close>

lemma collect_loop_effect:
  "collect_loop env tbl (a, w) = (a', w') \<Longrightarrow>
     events w' = events w @ map (\<lambda>kc. Run (snd kc)) tbl \<and> getcwd w' = getcwd w \<and>
     config_file w' = config_file w \<and> current_dir a' = current_dir a \<and> config a' = config a \<and>
     conversation_history a' = conversation_history a \<and> system_message a' = system_message a"
proof (induction tbl arbitrary: a w)
  case Nil
  then show ?case by simp
next
  case (Cons kc tbl)
  obtain key command where kc: "kc = (key, command)" by (cases kc) auto
  show ?case
    using Cons.prems Cons.IH
    by (simp add: kc Let_def log_def)
qed

lemma collect_system_info_effect:
  "collect_system_info env (a, w) = (a', w') \<Longrightarrow>
     events w' = events w @ map (\<lambda>kc. Run (snd kc)) SYSTEM_INFO_COMMANDS \<and> getcwd w' = getcwd w \<and>
     config_file w' = config_file w \<and> current_dir a' = current_dir a \<and> config a' = config a \<and>
     conversation_history a' = conversation_history a \<and> system_message a' = system_message a"
  unfolding collect_system_info_def by (rule collect_loop_effect)

lemma change_dir_effect:
  assumes "change_dir env command (a, w) = (r, a', w')"
  shows "(let new_dir = cd_path (current_dir a) (getcwd w) command in
           events w' = events w @
             (if isdir env (events w) new_dir then
                (case chdir env (events w) new_dir of
                   None \<Rightarrow> Chdir new_dir # map (\<lambda>kc. Run (snd kc)) SYSTEM_INFO_COMMANDS
                 | Some e \<Rightarrow> [LogError e])
              else []) \<and>
           config a' = config a \<and> config_file w' = config_file w \<and>
           conversation_history a' = conversation_history a \<and> system_message a' = system_message a \<and>
           (if isdir env (events w) new_dir \<and> chdir env (events w) new_dir = None
            then r = Inr (CurrentDir new_dir) \<and> current_dir a' = new_dir \<and> getcwd w' = new_dir
            else a' = a \<and> getcwd w' = getcwd w \<and>
                 r = (if isdir env (events w) new_dir
                      then Inr (CdError (the (chdir env (events w) new_dir)))
                      else Inr (NoSuchDir new_dir))))"
proof -
  let ?d = "cd_path (current_dir a) (getcwd w) command"
  show ?thesis
  proof (cases "isdir env (events w) ?d")
    case False
    then show ?thesis using assms by (auto simp: change_dir_def Let_def)
  next
    case True
    show ?thesis
    proof (cases "chdir env (events w) ?d")
      case (Some e)
      then show ?thesis using assms True by (auto simp: change_dir_def Let_def log_def)
    next
      case None
      let ?w = "(log (Chdir ?d) w)\<lparr>getcwd := ?d\<rparr>"
      let ?a = "a\<lparr>current_dir := ?d\<rparr>"
      obtain a2 w2 where c: "collect_system_info env (?a, ?w) = (a2, w2)"
        by (cases "collect_system_info env (?a, ?w)") auto
      have r: "r = Inr (CurrentDir ?d)" "a' = a2" "w' = w2"
        using assms True None c by (auto simp: change_dir_def Let_def)
      show ?thesis
        using collect_system_info_effect [OF c] True None
        by (simp add: r Let_def log_def)
    qed
  qed
qed

lemma change_dir_v04_effect:
  assumes "change_dir_v04 env command (a, w) = (r, a', w')"
  shows "(let new_dir = cd_path_v04 env (current_dir a) (getcwd w) command in
           events w' = events w @
             (if isdir env (events w) new_dir then
                (case chdir env (events w) new_dir of
                   None \<Rightarrow> [Chdir new_dir]
                 | Some e \<Rightarrow> [LogError e])
              else []) \<and>
           config a' = config a \<and> config_file w' = config_file w \<and>
           conversation_history a' = conversation_history a \<and> system_message a' = system_message a \<and>
           (if isdir env (events w) new_dir \<and> chdir env (events w) new_dir = None
            then r = Inr (CurrentDir new_dir) \<and> current_dir a' = new_dir \<and> getcwd w' = new_dir
            else a' = a \<and> getcwd w' = getcwd w \<and>
                 r = (if isdir env (events w) new_dir
                      then Inr (CdError (the (chdir env (events w) new_dir)))
                      else Inr (NoSuchDir new_dir))))"
  using assms by (auto simp: change_dir_v04_def Let_def log_def split: option.splits)

lemma no_popen_runs: "\<not> list_ex is_popen (map (\<lambda>kc. Run (snd kc)) tbl)"
  by (induction tbl) (auto simp: is_popen_def)

lemma no_confirm_runs: "\<not> list_ex is_confirm (map (\<lambda>kc. Run (snd kc)) tbl)"
  by (induction tbl) (auto simp: is_confirm_def)

lemma cd_v05:
  assumes cd: "startswith (strip (expand_alias (aliases (config a)) command)) ''cd ''"
    and res: "execute_command env command (a, w) = (r, a', w')"
  shows "(let ev = events w @ [LogInfo command];
              new_dir = cd_path (current_dir a) (getcwd w) (expand_alias (aliases (config a)) command)
          in take (length (events w)) (events w') = events w \<and>
             \<not> list_ex is_popen (added w w') \<and> \<not> list_ex is_confirm (added w w') \<and>
             config a' = config a \<and> config_file w' = config_file w \<and>
             (if isdir env ev new_dir \<and> chdir env ev new_dir = None
              then r = Inr (CurrentDir new_dir) \<and> current_dir a' = new_dir \<and> getcwd w' = new_dir
              else a' = a \<and> getcwd w' = getcwd w \<and>
                   r = (if isdir env ev new_dir then Inr (CdError (the (chdir env ev new_dir)))
                        else Inr (NoSuchDir new_dir))))"
proof -
  let ?cmd = "expand_alias (aliases (config a)) command"
  let ?w = "log (LogInfo command) w"
  have c: "change_dir env ?cmd (a, ?w) = (r, a', w')"
    using res cd by (simp add: execute_command_def Let_def)
  have ev: "events ?w = events w @ [LogInfo command]" "getcwd ?w = getcwd w"
           "config_file ?w = config_file w"
    by (simp_all add: log_def)
  show ?thesis
    using change_dir_effect [OF c]
    by (auto simp: ev Let_def added_def is_popen_def is_confirm_def no_popen_runs no_confirm_runs
             split: option.splits if_splits)
qed

lemma cd_v04:
  assumes al: "expand_alias_v04 settings command (log (LogInfo command) w) = Inr (cmd, w1)"
    and cd: "startswith (strip cmd) ''cd ''"
    and res: "execute_command_v04 env settings command (a, w) = (r, a', w')"
  shows "(let new_dir = cd_path_v04 env (current_dir a) (getcwd w) cmd
          in take (length (events w)) (events w') = events w \<and>
             \<not> list_ex is_popen (added w w') \<and> \<not> list_ex is_run (added w w') \<and>
             \<not> list_ex is_confirm (added w w') \<and>
             config a' = config a \<and> config_file w' = config_file w \<and>
             (if isdir env (events w1) new_dir \<and> chdir env (events w1) new_dir = None
              then r = Inr (CurrentDir new_dir) \<and> current_dir a' = new_dir \<and> getcwd w' = new_dir
              else a' = a \<and> getcwd w' = getcwd w \<and>
                   r = (if isdir env (events w1) new_dir
                        then Inr (CdError (the (chdir env (events w1) new_dir)))
                        else Inr (NoSuchDir new_dir))))"
proof -
  have c: "change_dir_v04 env cmd (a, w1) = (r, a', w')"
    using res cd al by (simp add: execute_command_v04_def Let_def)
  have w1: "getcwd w1 = getcwd w" "config_file w1 = config_file w"
    "events w1 = events w @ [LogInfo command] \<or>
     (\<exists>n. events w1 = events w @ [LogInfo command, LogInfo n])"
    using al by (auto simp: expand_alias_v04_def log_def split: list.splits option.splits if_splits)
  show ?thesis
    using change_dir_v04_effect [OF c] w1(3)
    by (auto simp: w1(1,2) Let_def added_def is_popen_def is_confirm_def is_run_def
             split: option.splits if_splits)
qed

lemma record_command_effect:
  assumes "record_command env cmd (a, w) = (a2, w2)"
  shows "current_dir a2 = current_dir a \<and> conversation_history a2 = conversation_history a \<and>
         system_message a2 = system_message a \<and> system_info a2 = system_info a \<and>
         aliases (config a2) = aliases (config a) \<and>
         custom_commands (config a2) = custom_commands (config a) \<and>
         getcwd w2 = getcwd w \<and>
         (if cmd \<notin> set [''pwd'', ''clear''] \<and> \<not> startswith cmd ''ls'' then
            command_history (config a2) =
              (let hist = command_history (config a) @
                     [\<lparr>h_command = cmd, h_timestamp = clock env (events w), h_directory = current_dir a\<rparr>]
               in if length hist > 100 then last_n 100 hist else hist) \<and>
            (if write_ok env (events w) ''~/.mistral_agent_config.json''
             then config_file w2 = Some (config a2) \<and> events w2 = events w @ [SaveConfig]
             else config_file w2 = config_file w \<and> events w2 = events w @ [LogError ''save_config''])
          else a2 = a \<and> w2 = w)"
  using assms
  by (auto simp: record_command_def save_config_def Let_def log_def split: if_splits)

lemma cancel_v05:
  assumes notcd: "\<not> startswith (strip (expand_alias (aliases (config a)) command)) ''cd ''"
    and dang: "is_dangerous_command (expand_alias (aliases (config a)) command) = Inr True"
    and decl: "\<forall>ev. \<not> confirm env ev (expand_alias (aliases (config a)) command)"
    and res: "execute_command env command (a, w) = (r, a', w')"
  shows "(let cmd = expand_alias (aliases (config a)) command;
              ev = events w @ [LogInfo command];
              recorded = (cmd \<notin> set [''pwd'', ''clear''] \<and> \<not> startswith cmd ''ls'');
              hist = command_history (config a) @
                     [\<lparr>h_command = cmd, h_timestamp = clock env ev, h_directory = current_dir a\<rparr>]
          in r = Inr Cancelled \<and>
             take (length (events w)) (events w') = events w \<and>
             \<not> list_ex is_popen (added w w') \<and> \<not> list_ex is_run (added w w') \<and>
             current_dir a' = current_dir a \<and> getcwd w' = getcwd w \<and>
             conversation_history a' = conversation_history a \<and>
             system_message a' = system_message a \<and> system_info a' = system_info a \<and>
             aliases (config a') = aliases (config a) \<and>
             custom_commands (config a') = custom_commands (config a) \<and>
             command_history (config a') =
               (if recorded then (if length hist > 100 then last_n 100 hist else hist)
                else command_history (config a)) \<and>
             config_file w' =
               (if recorded \<and> write_ok env ev ''~/.mistral_agent_config.json''
                then Some (config a') else config_file w))"
proof -
  let ?cmd = "expand_alias (aliases (config a)) command"
  let ?w = "log (LogInfo command) w"
  obtain a2 w2 where rc: "record_command env ?cmd (a, ?w) = (a2, w2)"
    by (cases "record_command env ?cmd (a, ?w)") auto
  have r: "r = Inr Cancelled" "a' = a2" "w' = log (Confirm ?cmd) w2"
    using res notcd dang decl rc by (simp_all add: execute_command_def Let_def)
  have ev: "events ?w = events w @ [LogInfo command]" "getcwd ?w = getcwd w"
           "config_file ?w = config_file w"
    by (simp_all add: log_def)
  show ?thesis
    using record_command_effect [OF rc]
    by (auto simp: r ev Let_def log_def added_def is_popen_def is_run_def split: if_splits)
qed

lemma cancel_v04:
  assumes al: "expand_alias_v04 settings command (log (LogInfo command) w) = Inr (cmd, w1)"
    and notcd: "\<not> startswith (strip cmd) ''cd ''"
    and dang: "is_dangerous_command_v04 (dangerous_commands settings) cmd = Inr True"
    and decl: "\<forall>ev. \<not> confirm env ev cmd"
    and res: "execute_command_v04 env settings command (a, w) = (r, a', w')"
  shows "r = Inr Cancelled \<and> a' = a \<and> getcwd w' = getcwd w \<and> config_file w' = config_file w \<and>
         take (length (events w)) (events w') = events w \<and>
         \<not> list_ex is_popen (added w w') \<and> \<not> list_ex is_run (added w w') \<and>
         events w' = events w1 @ [Confirm cmd]"
proof -
  have r: "r = Inr Cancelled" "a' = a" "w' = log (Confirm cmd) w1"
    using res al notcd dang decl by (simp_all add: execute_command_v04_def Let_def)
  have w1: "getcwd w1 = getcwd w" "config_file w1 = config_file w"
    "events w1 = events w @ [LogInfo command] \<or>
     (\<exists>n. events w1 = events w @ [LogInfo command, LogInfo n])"
    using al by (auto simp: expand_alias_v04_def log_def split: list.splits option.splits if_splits)
  show ?thesis
    using w1(3) by (auto simp: r w1(1,2) log_def added_def is_popen_def is_run_def)
qed


lemma cd_up_result:
  "fst (execute_command (example_env False) ''cd ..'' (example_agent, example_world)) =
     Inr (CurrentDir ''/a'')"
  by code_simp

lemma cd_up_dir:
  "current_dir (fst (snd (execute_command (example_env False) ''cd ..'' (example_agent, example_world)))) =
     ''/a''"
  by code_simp

lemma cd_nonexistent_result:
  "fst (execute_command (example_env False) ''cd /nonexistent'' (example_agent, example_world)) =
     Inr (NoSuchDir ''/nonexistent'')"
  by code_simp

lemma cd_nonexistent_dir:
  "current_dir (fst (snd (execute_command (example_env False) ''cd /nonexistent''
      (example_agent, example_world)))) = ''/a/b''"
  by code_simp

lemma cd_bare_events:
  "events (snd (snd (execute_command (example_env False) ''cd'' (example_agent, example_world)))) =
     [LogInfo ''cd'', SaveConfig, Popen ''cd'' ''/a/b'']"
  by code_simp

lemma cd_bare_events_v04:
  "events (snd (snd (execute_command_v04 (example_env False) example_settings ''cd''
      (example_agent, example_world)))) = [LogInfo ''cd'', Popen ''cd'' ''/a/b'']"
  by code_simp

lemma cd_tilde_result:
  "fst (execute_command (example_env False) ''cd ~'' (example_agent, example_world)) =
     Inr (NoSuchDir ''/a/b/~'')"
  by code_simp

text \<open>
  C3 (the claim as stated fails). The command \<^verbatim>\<open>cd\<close> without a path is not handled in
  process: both agents pass it to a subprocess. The agent of mistral\_api\_agent\_v05 does not
  treat a target that starts with \<^verbatim>\<open>~\<close> as absolute: from \<^verbatim>\<open>/a/b\<close> the command \<^verbatim>\<open>cd ~\<close>
  looks for the directory \<^verbatim>\<open>/a/b/~\<close>.
\<close>

theorem cd_bare_counterexample:
  "events (snd (snd (execute_command (example_env False) ''cd'' (example_agent, example_world)))) =
     [LogInfo ''cd'', SaveConfig, Popen ''cd'' ''/a/b''] \<and>
   events (snd (snd (execute_command_v04 (example_env False) example_settings ''cd''
      (example_agent, example_world)))) = [LogInfo ''cd'', Popen ''cd'' ''/a/b''] \<and>
   fst (execute_command (example_env False) ''cd ~'' (example_agent, example_world)) =
     Inr (NoSuchDir ''/a/b/~'')"
  by (simp only: cd_bare_events cd_bare_events_v04 cd_tilde_result simp_thms)

text \<open>
  C3 (as amended). For every command whose text, after the alias step and stripped, starts
  with \<^verbatim>\<open>cd\<close> and a space, \<^verbatim>\<open>execute_command\<close> starts no subprocess for the command and
  asks for no confirmation. The target is the rest of the command, stripped; it is taken
  as it is when it starts with \<^verbatim>\<open>/\<close> (in mistral\_api\_agent\_v04 also expanded by
  \<^verbatim>\<open>expanduser\<close> when it starts with \<^verbatim>\<open>~\<close>) and joined to the tracked directory
  otherwise, then normalised by \<^verbatim>\<open>abspath\<close>. If the result is an existing directory and
  \<^verbatim>\<open>os.chdir\<close> succeeds, the tracked directory becomes the new path and the result carries
  it (mistral\_api\_agent\_v05 then runs the commands of its system information table);
  otherwise the result is a failure message and the agent is unchanged. In particular
  \<^verbatim>\<open>cd ..\<close> from \<^verbatim>\<open>/a/b\<close> sets the tracked directory to \<^verbatim>\<open>/a\<close>, and \<^verbatim>\<open>cd /nonexistent\<close>
  leaves it unchanged.
\<close>

theorem cd_directive:
  "(startswith (strip (expand_alias (aliases (config a)) command)) ''cd '' \<longrightarrow>
      (case execute_command env command (a, w) of (r, a', w') \<Rightarrow>
         let ev = events w @ [LogInfo command];
             new_dir = cd_path (current_dir a) (getcwd w) (expand_alias (aliases (config a)) command)
         in take (length (events w)) (events w') = events w \<and>
            \<not> list_ex is_popen (added w w') \<and> \<not> list_ex is_confirm (added w w') \<and>
            config a' = config a \<and> config_file w' = config_file w \<and>
            (if isdir env ev new_dir \<and> chdir env ev new_dir = None
             then r = Inr (CurrentDir new_dir) \<and> current_dir a' = new_dir \<and> getcwd w' = new_dir
             else a' = a \<and> getcwd w' = getcwd w \<and>
                  r = (if isdir env ev new_dir then Inr (CdError (the (chdir env ev new_dir)))
                       else Inr (NoSuchDir new_dir))))) \<and>
   (expand_alias_v04 settings command (log (LogInfo command) w) = Inr (cmd, w1) \<and>
    startswith (strip cmd) ''cd '' \<longrightarrow>
      (case execute_command_v04 env settings command (a, w) of (r, a', w') \<Rightarrow>
         let new_dir = cd_path_v04 env (current_dir a) (getcwd w) cmd
         in take (length (events w)) (events w') = events w \<and>
            \<not> list_ex is_popen (added w w') \<and> \<not> list_ex is_run (added w w') \<and>
            \<not> list_ex is_confirm (added w w') \<and>
            config a' = config a \<and> config_file w' = config_file w \<and>
            (if isdir env (events w1) new_dir \<and> chdir env (events w1) new_dir = None
             then r = Inr (CurrentDir new_dir) \<and> current_dir a' = new_dir \<and> getcwd w' = new_dir
             else a' = a \<and> getcwd w' = getcwd w \<and>
                  r = (if isdir env (events w1) new_dir
                       then Inr (CdError (the (chdir env (events w1) new_dir)))
                       else Inr (NoSuchDir new_dir))))) \<and>
   fst (execute_command (example_env False) ''cd ..'' (example_agent, example_world)) =
     Inr (CurrentDir ''/a'') \<and>
   current_dir (fst (snd (execute_command (example_env False) ''cd ..'' (example_agent, example_world)))) =
     ''/a'' \<and>
   fst (execute_command (example_env False) ''cd /nonexistent'' (example_agent, example_world)) =
     Inr (NoSuchDir ''/nonexistent'') \<and>
   current_dir (fst (snd (execute_command (example_env False) ''cd /nonexistent''
      (example_agent, example_world)))) = ''/a/b''"
proof -
  have v05: "startswith (strip (expand_alias (aliases (config a)) command)) ''cd '' \<longrightarrow>
      (case execute_command env command (a, w) of (r, a', w') \<Rightarrow>
         let ev = events w @ [LogInfo command];
             new_dir = cd_path (current_dir a) (getcwd w) (expand_alias (aliases (config a)) command)
         in take (length (events w)) (events w') = events w \<and>
            \<not> list_ex is_popen (added w w') \<and> \<not> list_ex is_confirm (added w w') \<and>
            config a' = config a \<and> config_file w' = config_file w \<and>
            (if isdir env ev new_dir \<and> chdir env ev new_dir = None
             then r = Inr (CurrentDir new_dir) \<and> current_dir a' = new_dir \<and> getcwd w' = new_dir
             else a' = a \<and> getcwd w' = getcwd w \<and>
                  r = (if isdir env ev new_dir then Inr (CdError (the (chdir env ev new_dir)))
                       else Inr (NoSuchDir new_dir))))"
  proof
    assume cd: "startswith (strip (expand_alias (aliases (config a)) command)) ''cd ''"
    obtain r a' w' where res: "execute_command env command (a, w) = (r, a', w')"
      by (cases "execute_command env command (a, w)") auto
    show "case execute_command env command (a, w) of (r, a', w') \<Rightarrow>
         let ev = events w @ [LogInfo command];
             new_dir = cd_path (current_dir a) (getcwd w) (expand_alias (aliases (config a)) command)
         in take (length (events w)) (events w') = events w \<and>
            \<not> list_ex is_popen (added w w') \<and> \<not> list_ex is_confirm (added w w') \<and>
            config a' = config a \<and> config_file w' = config_file w \<and>
            (if isdir env ev new_dir \<and> chdir env ev new_dir = None
             then r = Inr (CurrentDir new_dir) \<and> current_dir a' = new_dir \<and> getcwd w' = new_dir
             else a' = a \<and> getcwd w' = getcwd w \<and>
                  r = (if isdir env ev new_dir then Inr (CdError (the (chdir env ev new_dir)))
                       else Inr (NoSuchDir new_dir)))"
      unfolding res prod.case by (rule cd_v05 [OF cd res])
  qed
  have v04: "expand_alias_v04 settings command (log (LogInfo command) w) = Inr (cmd, w1) \<and>
    startswith (strip cmd) ''cd '' \<longrightarrow>
      (case execute_command_v04 env settings command (a, w) of (r, a', w') \<Rightarrow>
         let new_dir = cd_path_v04 env (current_dir a) (getcwd w) cmd
         in take (length (events w)) (events w') = events w \<and>
            \<not> list_ex is_popen (added w w') \<and> \<not> list_ex is_run (added w w') \<and>
            \<not> list_ex is_confirm (added w w') \<and>
            config a' = config a \<and> config_file w' = config_file w \<and>
            (if isdir env (events w1) new_dir \<and> chdir env (events w1) new_dir = None
             then r = Inr (CurrentDir new_dir) \<and> current_dir a' = new_dir \<and> getcwd w' = new_dir
             else a' = a \<and> getcwd w' = getcwd w \<and>
                  r = (if isdir env (events w1) new_dir
                       then Inr (CdError (the (chdir env (events w1) new_dir)))
                       else Inr (NoSuchDir new_dir))))"
  proof
    assume h: "expand_alias_v04 settings command (log (LogInfo command) w) = Inr (cmd, w1) \<and>
               startswith (strip cmd) ''cd ''"
    obtain r a' w' where res: "execute_command_v04 env settings command (a, w) = (r, a', w')"
      by (cases "execute_command_v04 env settings command (a, w)") auto
    show "case execute_command_v04 env settings command (a, w) of (r, a', w') \<Rightarrow>
         let new_dir = cd_path_v04 env (current_dir a) (getcwd w) cmd
         in take (length (events w)) (events w') = events w \<and>
            \<not> list_ex is_popen (added w w') \<and> \<not> list_ex is_run (added w w') \<and>
            \<not> list_ex is_confirm (added w w') \<and>
            config a' = config a \<and> config_file w' = config_file w \<and>
            (if isdir env (events w1) new_dir \<and> chdir env (events w1) new_dir = None
             then r = Inr (CurrentDir new_dir) \<and> current_dir a' = new_dir \<and> getcwd w' = new_dir
             else a' = a \<and> getcwd w' = getcwd w \<and>
                  r = (if isdir env (events w1) new_dir
                       then Inr (CdError (the (chdir env (events w1) new_dir)))
                       else Inr (NoSuchDir new_dir)))"
      unfolding res prod.case by (rule cd_v04 [OF conjunct1 [OF h] conjunct2 [OF h] res])
  qed
  show ?thesis
    using v05 v04
    by (simp only: cd_up_result cd_up_dir cd_nonexistent_result cd_nonexistent_dir simp_thms)
qed

theorem cd_directive_witness:
  "startswith (strip (expand_alias (aliases (config example_agent)) ''cd ..'')) ''cd '' \<and>
   expand_alias_v04 example_settings ''cd ..'' (log (LogInfo ''cd ..'') example_world) =
     Inr (''cd ..'', log (LogInfo ''cd ..'') example_world) \<and>
   startswith (strip ''cd ..'') ''cd '' \<and>
   \<not> list_ex is_popen (added example_world
        (snd (snd (execute_command (example_env False) ''cd ..'' (example_agent, example_world))))) \<and>
   \<not> list_ex is_popen (added example_world
        (snd (snd (execute_command_v04 (example_env False) example_settings ''cd ..''
           (example_agent, example_world))))) \<and>
   current_dir (fst (snd (execute_command (example_env False) ''cd ..'' (example_agent, example_world)))) =
     ''/a''"
proof -
  have h5: "startswith (strip (expand_alias (aliases (config example_agent)) ''cd ..'')) ''cd ''"
    by code_simp
  have h4: "expand_alias_v04 example_settings ''cd ..'' (log (LogInfo ''cd ..'') example_world) =
     Inr (''cd ..'', log (LogInfo ''cd ..'') example_world)"
    by code_simp
  have hs: "startswith (strip ''cd ..'') ''cd ''"
    by code_simp
  note t = cd_directive [where a = example_agent and command = "''cd ..''" and
      env = "example_env False" and w = example_world and settings = example_settings and
      cmd = "''cd ..''" and ?w1.0 = "log (LogInfo ''cd ..'') example_world"]
  have p5: "\<not> list_ex is_popen (added example_world
        (snd (snd (execute_command (example_env False) ''cd ..'' (example_agent, example_world)))))"
    using t h5 by (simp add: case_prod_beta Let_def)
  have p4: "\<not> list_ex is_popen (added example_world
        (snd (snd (execute_command_v04 (example_env False) example_settings ''cd ..''
           (example_agent, example_world)))))"
    using t h4 hs by (simp add: case_prod_beta Let_def)
  have d: "current_dir (fst (snd (execute_command (example_env False) ''cd ..''
      (example_agent, example_world)))) = ''/a''"
    using t by (simp only:)
  show ?thesis using h5 h4 hs p5 p4 d by (simp only: simp_thms)
qed

lemma cancel_rm_result:
  "fst (execute_command (example_env False) ''rm -rf /a'' (example_agent, example_world)) = Inr Cancelled"
  by code_simp

lemma cancel_rm_history:
  "command_history (config (fst (snd (execute_command (example_env False) ''rm -rf /a''
      (example_agent, example_world))))) =
   [\<lparr>h_command = ''rm -rf /a'', h_timestamp = ''2024-01-01T00:00:00'', h_directory = ''/a/b''\<rparr>]"
  by code_simp

lemma cancel_rm_config_file:
  "config_file (snd (snd (execute_command (example_env False) ''rm -rf /a''
      (example_agent, example_world)))) =
   Some \<lparr>aliases = [], custom_commands = [],
         command_history = [\<lparr>h_command = ''rm -rf /a'', h_timestamp = ''2024-01-01T00:00:00'',
                              h_directory = ''/a/b''\<rparr>]\<rparr>"
  by code_simp

lemma example_before:
  "command_history (config example_agent) = [] \<and> config_file example_world = None"
  by (simp add: example_agent_def example_config_def example_world_def)

text \<open>
  C4 (the claim as stated fails). In mistral\_api\_agent\_v05 the declined command
  \<^verbatim>\<open>rm -rf /a\<close> is answered with the cancellation message, but before the prompt it was
  appended to \<^verbatim>\<open>config['command_history']\<close> and the configuration file was rewritten: the
  configuration and its persisted store are not as before the attempt.
\<close>

theorem cancel_side_effect_counterexample:
  "fst (execute_command (example_env False) ''rm -rf /a'' (example_agent, example_world)) = Inr Cancelled \<and>
   command_history (config example_agent) = [] \<and>
   command_history (config (fst (snd (execute_command (example_env False) ''rm -rf /a''
      (example_agent, example_world))))) =
     [\<lparr>h_command = ''rm -rf /a'', h_timestamp = ''2024-01-01T00:00:00'', h_directory = ''/a/b''\<rparr>] \<and>
   config_file example_world = None \<and>
   config_file (snd (snd (execute_command (example_env False) ''rm -rf /a''
      (example_agent, example_world)))) =
     Some \<lparr>aliases = [], custom_commands = [],
           command_history = [\<lparr>h_command = ''rm -rf /a'', h_timestamp = ''2024-01-01T00:00:00'',
                                h_directory = ''/a/b''\<rparr>]\<rparr>"
  using example_before
  by (simp only: cancel_rm_result cancel_rm_history cancel_rm_config_file simp_thms)

text \<open>
  C4 (as amended). For every command other than \<^verbatim>\<open>cd\<close> that is classified dangerous,
  when the operator declines the confirmation the engine returns the cancellation
  message and starts no subprocess; the tracked directory, the working directory of the
  process, the conversation history, the system message, the aliases and the quick
  commands are as before. In mistral\_api\_agent\_v04 the agent is unchanged and the
  configuration file untouched. In mistral\_api\_agent\_v05 the command has already been
  appended to \<^verbatim>\<open>config['command_history']\<close> (unless it starts with \<^verbatim>\<open>ls\<close>), the history cut
  to its last 100 entries, and the configuration written to its file.
\<close>

theorem cancel_dangerous:
  "(\<not> startswith (strip (expand_alias (aliases (config a)) command)) ''cd '' \<and>
    is_dangerous_command (expand_alias (aliases (config a)) command) = Inr True \<and>
    (\<forall>ev. \<not> confirm env ev (expand_alias (aliases (config a)) command)) \<longrightarrow>
      (case execute_command env command (a, w) of (r, a', w') \<Rightarrow>
         let cmd = expand_alias (aliases (config a)) command;
             ev = events w @ [LogInfo command];
             recorded = (cmd \<notin> set [''pwd'', ''clear''] \<and> \<not> startswith cmd ''ls'');
             hist = command_history (config a) @
                    [\<lparr>h_command = cmd, h_timestamp = clock env ev, h_directory = current_dir a\<rparr>]
         in r = Inr Cancelled \<and>
            take (length (events w)) (events w') = events w \<and>
            \<not> list_ex is_popen (added w w') \<and> \<not> list_ex is_run (added w w') \<and>
            current_dir a' = current_dir a \<and> getcwd w' = getcwd w \<and>
            conversation_history a' = conversation_history a \<and>
            system_message a' = system_message a \<and> system_info a' = system_info a \<and>
            aliases (config a') = aliases (config a) \<and>
            custom_commands (config a') = custom_commands (config a) \<and>
            command_history (config a') =
              (if recorded then (if length hist > 100 then last_n 100 hist else hist)
               else command_history (config a)) \<and>
            config_file w' =
              (if recorded \<and> write_ok env ev ''~/.mistral_agent_config.json''
               then Some (config a') else config_file w))) \<and>
   (expand_alias_v04 settings command (log (LogInfo command) w) = Inr (cmd4, w1) \<and>
    \<not> startswith (strip cmd4) ''cd '' \<and>
    is_dangerous_command_v04 (dangerous_commands settings) cmd4 = Inr True \<and>
    (\<forall>ev. \<not> confirm env ev cmd4) \<longrightarrow>
      (case execute_command_v04 env settings command (a, w) of (r, a', w') \<Rightarrow>
         r = Inr Cancelled \<and> a' = a \<and> getcwd w' = getcwd w \<and> config_file w' = config_file w \<and>
         take (length (events w)) (events w') = events w \<and>
         \<not> list_ex is_popen (added w w') \<and> \<not> list_ex is_run (added w w') \<and>
         events w' = events w1 @ [Confirm cmd4]))"
proof (intro conjI impI)
  assume h: "\<not> startswith (strip (expand_alias (aliases (config a)) command)) ''cd '' \<and>
    is_dangerous_command (expand_alias (aliases (config a)) command) = Inr True \<and>
    (\<forall>ev. \<not> confirm env ev (expand_alias (aliases (config a)) command))"
  obtain r a' w' where res: "execute_command env command (a, w) = (r, a', w')"
    by (cases "execute_command env command (a, w)") auto
  show "case execute_command env command (a, w) of (r, a', w') \<Rightarrow>
         let cmd = expand_alias (aliases (config a)) command;
             ev = events w @ [LogInfo command];
             recorded = (cmd \<notin> set [''pwd'', ''clear''] \<and> \<not> startswith cmd ''ls'');
             hist = command_history (config a) @
                    [\<lparr>h_command = cmd, h_timestamp = clock env ev, h_directory = current_dir a\<rparr>]
         in r = Inr Cancelled \<and>
            take (length (events w)) (events w') = events w \<and>
            \<not> list_ex is_popen (added w w') \<and> \<not> list_ex is_run (added w w') \<and>
            current_dir a' = current_dir a \<and> getcwd w' = getcwd w \<and>
            conversation_history a' = conversation_history a \<and>
            system_message a' = system_message a \<and> system_info a' = system_info a \<and>
            aliases (config a') = aliases (config a) \<and>
            custom_commands (config a') = custom_commands (config a) \<and>
            command_history (config a') =
              (if recorded then (if length hist > 100 then last_n 100 hist else hist)
               else command_history (config a)) \<and>
            config_file w' =
              (if recorded \<and> write_ok env ev ''~/.mistral_agent_config.json''
               then Some (config a') else config_file w)"
    unfolding res prod.case
    by (rule cancel_v05 [OF conjunct1 [OF h] conjunct1 [OF conjunct2 [OF h]]
        conjunct2 [OF conjunct2 [OF h]] res])
next
  assume h: "expand_alias_v04 settings command (log (LogInfo command) w) = Inr (cmd4, w1) \<and>
    \<not> startswith (strip cmd4) ''cd '' \<and>
    is_dangerous_command_v04 (dangerous_commands settings) cmd4 = Inr True \<and>
    (\<forall>ev. \<not> confirm env ev cmd4)"
  obtain r a' w' where res: "execute_command_v04 env settings command (a, w) = (r, a', w')"
    by (cases "execute_command_v04 env settings command (a, w)") auto
  show "case execute_command_v04 env settings command (a, w) of (r, a', w') \<Rightarrow>
         r = Inr Cancelled \<and> a' = a \<and> getcwd w' = getcwd w \<and> config_file w' = config_file w \<and>
         take (length (events w)) (events w') = events w \<and>
         \<not> list_ex is_popen (added w w') \<and> \<not> list_ex is_run (added w w') \<and>
         events w' = events w1 @ [Confirm cmd4]"
    unfolding res prod.case
    by (rule cancel_v04 [OF conjunct1 [OF h] conjunct1 [OF conjunct2 [OF h]]
        conjunct1 [OF conjunct2 [OF conjunct2 [OF h]]]
        conjunct2 [OF conjunct2 [OF conjunct2 [OF h]]] res])
qed

theorem cancel_dangerous_witness:
  "\<not> startswith (strip (expand_alias (aliases (config example_agent)) ''rm -rf /a'')) ''cd '' \<and>
   is_dangerous_command (expand_alias (aliases (config example_agent)) ''rm -rf /a'') = Inr True \<and>
   expand_alias_v04 example_settings ''rm -rf /a'' (log (LogInfo ''rm -rf /a'') example_world) =
     Inr (''rm -rf /a'', log (LogInfo ''rm -rf /a'') example_world) \<and>
   \<not> startswith (strip ''rm -rf /a'') ''cd '' \<and>
   is_dangerous_command_v04 (dangerous_commands example_settings) ''rm -rf /a'' = Inr True \<and>
   fst (execute_command (example_env False) ''rm -rf /a'' (example_agent, example_world)) = Inr Cancelled \<and>
   fst (snd (execute_command_v04 (example_env False) example_settings ''rm -rf /a''
      (example_agent, example_world))) = example_agent"
proof -
  have h1: "\<not> startswith (strip (expand_alias (aliases (config example_agent)) ''rm -rf /a'')) ''cd ''"
    by code_simp
  have h2: "is_dangerous_command (expand_alias (aliases (config example_agent)) ''rm -rf /a'') = Inr True"
    by code_simp
  have h3: "expand_alias_v04 example_settings ''rm -rf /a'' (log (LogInfo ''rm -rf /a'') example_world) =
     Inr (''rm -rf /a'', log (LogInfo ''rm -rf /a'') example_world)"
    by code_simp
  have h4: "\<not> startswith (strip ''rm -rf /a'') ''cd ''"
    by code_simp
  have h5: "is_dangerous_command_v04 (dangerous_commands example_settings) ''rm -rf /a'' = Inr True"
    by code_simp
  have h6: "\<forall>ev. \<not> confirm (example_env False) ev c" for c
    by (simp add: example_env_def)
  note t = cancel_dangerous [where a = example_agent and command = "''rm -rf /a''" and
      env = "example_env False" and w = example_world and settings = example_settings and
      ?cmd4.0 = "''rm -rf /a''" and ?w1.0 = "log (LogInfo ''rm -rf /a'') example_world"]
  have r5: "fst (execute_command (example_env False) ''rm -rf /a'' (example_agent, example_world)) =
     Inr Cancelled"
    using t h1 h2 h6 by (simp add: case_prod_beta Let_def)
  have r4: "fst (snd (execute_command_v04 (example_env False) example_settings ''rm -rf /a''
      (example_agent, example_world))) = example_agent"
    using t h3 h4 h5 h6 by (simp add: case_prod_beta Let_def)
  show ?thesis using h1 h2 h3 h4 h5 r5 r4 by (simp only: simp_thms)
qed

section \<open>Properties of the quick commands\<close>

lemma map_of_dict_set: "map_of (dict_set ps k v) = (map_of ps)(k \<mapsto> v)"
  by (induction ps k v rule: dict_set.induct) auto

lemma map_of_bind_params:
  "map_of (bind_params ps names args) n =
     (case map_of (rev (zip names args)) n of Some v \<Rightarrow> Some v | None \<Rightarrow> map_of ps n)"
proof (induction ps names args rule: bind_params.induct)
  case (3 params name names arg args)
  then show ?case
    by (auto simp: map_of_dict_set map_add_def split: option.splits)
qed simp_all

lemma map_of_bind_params_bound:
  assumes "length names \<le> length args" and "n \<in> set names"
  shows "map_of (bind_params [] names args) n = Some (bound_value names args n)"
proof -
  have "n \<in> fst ` set (rev (zip names args))"
    using assms by (simp add: map_fst_zip_take set_map [symmetric] del: set_map)
  then obtain v where "map_of (rev (zip names args)) n = Some v"
    by (metis map_of_eq_None_iff not_None_eq)
  then show ?thesis by (simp add: map_of_bind_params bound_value_def)
qed

lemma finditer_skip_literal:
  "brace_free lit \<Longrightarrow> finditer param_pattern (lit @ s) = finditer param_pattern s"
proof (induction lit)
  case Nil
  then show ?case by simp
next
  case (Cons c lit)
  then have c: "c \<noteq> CHR ''{''" and bf: "brace_free lit" by (auto simp: brace_free_def)
  have "param_pattern (c # lit @ s) = None" using c by (simp add: param_pattern_def)
  then have "finditer param_pattern ((c # lit) @ s) = finditer param_pattern (lit @ s)"
    by (subst finditer.simps) simp
  then show ?case using Cons.IH [OF bf] by simp
qed

lemma finditer_Nil: "finditer m [] = []"
  by (subst finditer.simps) simp

lemma finditer_literal: "brace_free lit \<Longrightarrow> finditer param_pattern lit = []"
  using finditer_skip_literal [of lit "[]"] by (simp add: finditer_Nil)

lemma param_pattern_field:
  assumes "name \<noteq> []" and "CHR ''}'' \<notin> set name"
  shows "param_pattern (CHR ''{'' # name @ CHR ''}'' # s) = Some (name, length name + 2)"
proof -
  have "takeWhile (\<lambda>x. x \<noteq> CHR ''}'') (name @ CHR ''}'' # s) = name"
    using assms(2) by (induction name) auto
  moreover have "dropWhile (\<lambda>x. x \<noteq> CHR ''}'') (name @ CHR ''}'' # s) = CHR ''}'' # s"
    using assms(2) by (induction name) auto
  ultimately show ?thesis using assms(1) by (simp add: param_pattern_def Let_def)
qed

lemma plain_name_no_brace: "plain_name n \<Longrightarrow> n \<noteq> [] \<and> CHR ''}'' \<notin> set n"
  by (auto simp: plain_name_def list_ex_iff)

lemma finditer_render:
  "plain_template lit segs \<Longrightarrow> finditer param_pattern (render lit segs) = map fst segs"
proof (induction segs arbitrary: lit)
  case Nil
  then show ?case by (simp add: plain_template_def finditer_literal)
next
  case (Cons seg segs)
  obtain name after where seg: "seg = (name, after)" by (cases seg) auto
  have bf: "brace_free lit" and pn: "plain_name name" and rest: "plain_template after segs"
    using Cons.prems by (simp_all add: plain_template_def seg)
  let ?s = "render after segs"
  have m: "param_pattern (CHR ''{'' # name @ CHR ''}'' # ?s) = Some (name, length name + 2)"
    using plain_name_no_brace [OF pn] by (simp add: param_pattern_field)
  have "finditer param_pattern (render lit (seg # segs)) =
        finditer param_pattern (CHR ''{'' # name @ CHR ''}'' # ?s)"
    using finditer_skip_literal [OF bf] by (simp add: seg)
  also have "\<dots> = name # finditer param_pattern ?s"
    by (subst finditer.simps) (simp add: m)
  finally show ?case using Cons.IH [OF rest] by (simp add: seg)
qed

lemma prepend_prepend: "prepend u (prepend v r) = prepend (u @ v) r"
  by (cases r) (simp_all add: prepend_def)

lemma prepend_Nil: "prepend [] r = r"
  by (cases r) (simp_all add: prepend_def)

lemma py_format_literal:
  "brace_free lit \<Longrightarrow> py_format ps None (lit @ s) = prepend lit (py_format ps None s)"
proof (induction lit)
  case Nil
  then show ?case by (simp add: prepend_Nil)
next
  case (Cons c lit)
  then have c: "c \<noteq> CHR ''{''" "c \<noteq> CHR ''}''" and bf: "brace_free lit"
    by (auto simp: brace_free_def)
  show ?case
  proof (cases "lit @ s")
    case Nil
    then show ?thesis using c by (simp add: prepend_def)
  next
    case (Cons d ds)
    have "py_format ps None ((c # lit) @ s) = prepend [c] (py_format ps None (lit @ s))"
      using c by (simp add: Cons)
    then show ?thesis using Cons.IH [OF bf] by (simp add: prepend_prepend)
  qed
qed

lemma py_format_name:
  assumes "\<not> list_ex (\<lambda>c. c = CHR ''{'' \<or> c = CHR ''}'' \<or> c = CHR '':'' \<or> c = CHR ''!'' \<or>
                      c = CHR ''['' \<or> c = CHR ''.'') n"
  shows "py_format ps (Some acc) (n @ s) = py_format ps (Some (acc @ n)) s"
  using assms by (induction n arbitrary: acc) auto

lemma py_format_field:
  assumes pn: "plain_name name" and b: "map_of ps name = Some v"
  shows "py_format ps None (CHR ''{'' # name @ CHR ''}'' # s) = prepend v (py_format ps None s)"
proof -
  obtain d ds where n: "name = d # ds" using pn by (cases name) (auto simp: plain_name_def)
  have d: "d \<noteq> CHR ''{''" using pn by (auto simp: plain_name_def n)
  have sp: "\<not> list_ex (\<lambda>c. c = CHR ''{'' \<or> c = CHR ''}'' \<or> c = CHR '':'' \<or> c = CHR ''!'' \<or>
                      c = CHR ''['' \<or> c = CHR ''.'') name"
    using pn by (simp add: plain_name_def)
  have dot: "CHR ''.'' \<notin> set name" using sp by (auto simp: list_ex_iff)
  have "py_format ps None (CHR ''{'' # name @ CHR ''}'' # s) =
        py_format ps (Some []) (name @ CHR ''}'' # s)"
    using d by (simp add: n)
  also have "\<dots> = py_format ps (Some name) (CHR ''}'' # s)"
    using py_format_name [OF sp, of ps "[]"] by simp
  also have "\<dots> = prepend v (py_format ps None s)"
    using pn b dot by (simp add: plain_name_def)
  finally show ?thesis .
qed

lemma py_format_render:
  assumes "plain_template lit segs" and "\<forall>n \<in> set (map fst segs). map_of ps n = Some (v n)"
  shows "py_format ps None (render lit segs) = Inr (fill v lit segs)"
  using assms
proof (induction segs arbitrary: lit)
  case Nil
  then show ?case
    using py_format_literal [of lit ps "[]"] by (simp add: plain_template_def prepend_def)
next
  case (Cons seg segs)
  obtain name after where seg: "seg = (name, after)" by (cases seg) auto
  have bf: "brace_free lit" and pn: "plain_name name" and rest: "plain_template after segs"
    using Cons.prems(1) by (simp_all add: plain_template_def seg)
  have b: "map_of ps name = Some (v name)" using Cons.prems(2) by (simp add: seg)
  have ih: "py_format ps None (render after segs) = Inr (fill v after segs)"
    using Cons.IH [OF rest] Cons.prems(2) by simp
  have "py_format ps None (render lit (seg # segs)) =
        prepend lit (py_format ps None (CHR ''{'' # name @ CHR ''}'' # render after segs))"
    using py_format_literal [OF bf] by (simp add: seg)
  also have "\<dots> = prepend lit (prepend (v name) (py_format ps None (render after segs)))"
    by (simp only: py_format_field [OF pn b])
  finally show ?case by (simp add: ih seg prepend_def)
qed

lemma render_braces:
  "segs \<noteq> [] \<Longrightarrow> CHR ''{'' \<in> set (render lit segs) \<and> CHR ''}'' \<in> set (render lit segs)"
  by (cases segs) auto

lemma render_no_braces: "brace_free lit \<Longrightarrow> \<not> (CHR ''{'' \<in> set lit \<and> CHR ''}'' \<in> set lit)"
  by (auto simp: brace_free_def list_ex_iff)

lemma resolve_template_render:
  assumes pt: "plain_template lit segs" and len: "length segs \<le> length args"
  shows "resolve_template cmd_name (render lit segs) args =
           Inr (Inr (fill (bound_value (map fst segs) args) lit segs))"
proof (cases segs)
  case Nil
  then show ?thesis using pt render_no_braces [of lit]
    by (auto simp: resolve_template_def plain_template_def)
next
  case (Cons seg rest)
  then have br: "CHR ''{'' \<in> set (render lit segs) \<and> CHR ''}'' \<in> set (render lit segs)"
    using render_braces [of segs lit] by simp
  have names: "finditer param_pattern (render lit segs) = map fst segs"
    using pt by (rule finditer_render)
  have bnd: "\<forall>n \<in> set (map fst segs).
      map_of (bind_params [] (map fst segs) args) n = Some (bound_value (map fst segs) args n)"
  proof
    fix n
    assume "n \<in> set (map fst segs)"
    then show "map_of (bind_params [] (map fst segs) args) n = Some (bound_value (map fst segs) args n)"
      using len by (intro map_of_bind_params_bound) simp_all
  qed
  have "py_format (bind_params [] (map fst segs) args) None (render lit segs) =
        Inr (fill (bound_value (map fst segs) args) lit segs)"
    using pt bnd by (rule py_format_render)
  then show ?thesis using br len by (simp add: resolve_template_def names Let_def)
qed

lemma resolve_template_too_few:
  assumes "CHR ''{'' \<in> set t" and "CHR ''}'' \<in> set t"
    and "length args < length (finditer param_pattern t)"
  shows "resolve_template cmd_name t args = Inr (Inl (NeedsParams cmd_name (finditer param_pattern t)))"
  using assms by (simp add: resolve_template_def Let_def)

lemma resolve_template_verbatim:
  assumes "CHR ''{'' \<notin> set t \<or> CHR ''}'' \<notin> set t"
  shows "resolve_template cmd_name t args = Inr (Inr t)"
  using assms by (auto simp: resolve_template_def)

lemma bound_value_distinct:
  assumes "distinct names" and "i < length names" and "length names \<le> length args"
  shows "bound_value names args (names ! i) = args ! i"
proof -
  have d: "distinct (map fst (rev (zip names args)))"
    using assms by (simp add: rev_map [symmetric] map_fst_zip_take distinct_take)
  have "(names ! i, args ! i) \<in> set (rev (zip names args))"
    using assms by (auto simp: set_zip)
  then have "map_of (rev (zip names args)) (names ! i) = Some (args ! i)"
    using d by (simp add: map_of_is_SomeI del: set_rev)
  then show ?thesis by (simp add: bound_value_def)
qed

lemma execute_quick_command_message:
  assumes "lookup_template (custom_commands (config a)) n = Some t"
    and "resolve_template n t args = Inr (Inl msg)"
  shows "execute_quick_command env n args (a, w) = (Inr msg, a, w)"
  using assms by (simp add: execute_quick_command_def resolve_def)

lemma resolve_service_status:
  "resolve [] ''service-status'' [''nginx''] = Inr (Inr ''systemctl status nginx'')"
  by code_simp

lemma resolve_service_status_missing:
  "resolve [] ''service-status'' [] = Inr (Inl (NeedsParams ''service-status'' [''service'']))"
  by code_simp

lemma resolve_find_large_files_one:
  "resolve [] ''find-large-files'' [''/var''] =
     Inr (Inl (NeedsParams ''find-large-files'' [''path'', ''size'']))"
  by code_simp

text \<open>
  The predefined quick command \<^verbatim>\<open>find-large-files\<close> cannot be resolved at all: its
  template holds the braces of \<^verbatim>\<open>find -exec\<close>, which \<^verbatim>\<open>str.format\<close> reads as a positional
  field, and the \<^verbatim>\<open>IndexError\<close> is not caught.
\<close>

lemma resolve_find_large_files_raises:
  "resolve [] ''find-large-files'' [''/var'', ''100''] = Inl (Raises IndexError)"
  by code_simp

text \<open>
  C8 (the claim as stated fails). With one argument for the two placeholders of
  \<^verbatim>\<open>find-large-files\<close> the message names both placeholders, \<^verbatim>\<open>path\<close> and \<^verbatim>\<open>size\<close>, not
  only the missing one, \<^verbatim>\<open>size\<close>.
\<close>

theorem resolve_names_all_counterexample:
  "resolve [] ''find-large-files'' [''/var''] =
     Inr (Inl (NeedsParams ''find-large-files'' [''path'', ''size''])) \<and>
   drop (length [''/var'']) [''path'', ''size''] = [''size'']"
  by (simp add: resolve_find_large_files_one)

text \<open>
  C8 (as amended). If the template lacks an opening or a closing brace, the arguments are
  ignored and the template is the command. Otherwise the placeholder names are the matches
  of \<^verbatim>\<open>\{([^}]+)\}\<close>, a repeated name counted each time; with fewer arguments than
  placeholders the result is the message that names all the placeholders of the template,
  and nothing is executed. With enough arguments, and a template that is made of texts
  without any brace and of placeholders in braces between them, each with a plain name (not
  empty, without \<^verbatim>\<open>{ } : ! [ .\<close>, and not read as a number by \<^verbatim>\<open>str.format\<close>), every
  occurrence of a placeholder is replaced by the value bound to its name, which is the
  argument at the position of the last occurrence of the name; when the names are distinct
  this is the argument at the position of the placeholder. A template with any other
  brace, such as that of \<^verbatim>\<open>find-large-files\<close>, is not covered. In particular
  \<^verbatim>\<open>service-status\<close> with \<^verbatim>\<open>nginx\<close> gives \<^verbatim>\<open>systemctl status nginx\<close>, and without arguments
  the message names \<^verbatim>\<open>service\<close>.
\<close>

theorem quick_command_resolution:
  "(CHR ''{'' \<notin> set plain \<or> CHR ''}'' \<notin> set plain \<longrightarrow>
      resolve_template n plain args = Inr (Inr plain)) \<and>
   (CHR ''{'' \<in> set t \<and> CHR ''}'' \<in> set t \<and> length few < length (finditer param_pattern t) \<longrightarrow>
      resolve_template n t few = Inr (Inl (NeedsParams n (finditer param_pattern t)))) \<and>
   (CHR ''{'' \<in> set t \<and> CHR ''}'' \<in> set t \<and> length few < length (finditer param_pattern t) \<and>
    lookup_template (custom_commands (config a)) n = Some t \<longrightarrow>
      execute_quick_command env n few (a, w) =
        (Inr (NeedsParams n (finditer param_pattern t)), a, w)) \<and>
   (plain_template lit segs \<and> length segs \<le> length enough \<longrightarrow>
      finditer param_pattern (render lit segs) = map fst segs \<and>
      resolve_template n (render lit segs) enough =
        Inr (Inr (fill (bound_value (map fst segs) enough) lit segs))) \<and>
   (distinct names \<and> i < length names \<and> length names \<le> length enough \<longrightarrow>
      bound_value names enough (names ! i) = enough ! i) \<and>
   resolve [] ''service-status'' [''nginx''] = Inr (Inr ''systemctl status nginx'') \<and>
   resolve [] ''service-status'' [] = Inr (Inl (NeedsParams ''service-status'' [''service'']))"
proof (intro conjI impI)
  assume "CHR ''{'' \<notin> set plain \<or> CHR ''}'' \<notin> set plain"
  then show "resolve_template n plain args = Inr (Inr plain)"
    by (rule resolve_template_verbatim)
next
  assume h: "CHR ''{'' \<in> set t \<and> CHR ''}'' \<in> set t \<and> length few < length (finditer param_pattern t)"
  then show "resolve_template n t few = Inr (Inl (NeedsParams n (finditer param_pattern t)))"
    by (simp add: resolve_template_too_few)
next
  assume h: "CHR ''{'' \<in> set t \<and> CHR ''}'' \<in> set t \<and> length few < length (finditer param_pattern t) \<and>
    lookup_template (custom_commands (config a)) n = Some t"
  then have "resolve_template n t few = Inr (Inl (NeedsParams n (finditer param_pattern t)))"
    by (simp add: resolve_template_too_few)
  then show "execute_quick_command env n few (a, w) =
        (Inr (NeedsParams n (finditer param_pattern t)), a, w)"
    using h by (simp add: execute_quick_command_message)
next
  assume h: "plain_template lit segs \<and> length segs \<le> length enough"
  then show "finditer param_pattern (render lit segs) = map fst segs"
    by (simp add: finditer_render)
  show "resolve_template n (render lit segs) enough =
        Inr (Inr (fill (bound_value (map fst segs) enough) lit segs))"
    using h by (simp add: resolve_template_render)
next
  assume "distinct names \<and> i < length names \<and> length names \<le> length enough"
  then show "bound_value names enough (names ! i) = enough ! i"
    by (simp add: bound_value_distinct)
next
  show "resolve [] ''service-status'' [''nginx''] = Inr (Inr ''systemctl status nginx'')"
    by (rule resolve_service_status)
  show "resolve [] ''service-status'' [] = Inr (Inl (NeedsParams ''service-status'' [''service'']))"
    by (rule resolve_service_status_missing)
qed

theorem quick_command_resolution_witness:
  "CHR ''}'' \<notin> set ''df -h'' \<and>
   resolve_template ''disk-usage'' ''df -h'' [''x''] = Inr (Inr ''df -h'') \<and>
   CHR ''{'' \<in> set ''scp {src} {dst}'' \<and> CHR ''}'' \<in> set ''scp {src} {dst}'' \<and>
   length [''a''] < length (finditer param_pattern ''scp {src} {dst}'') \<and>
   lookup_template (custom_commands (config (example_agent\<lparr>config :=
       example_config\<lparr>custom_commands := [(''copy'', ''scp {src} {dst}'')]\<rparr>\<rparr>))) ''copy'' =
     Some ''scp {src} {dst}'' \<and>
   execute_quick_command (example_env True) ''copy'' [''a'']
       (example_agent\<lparr>config := example_config\<lparr>custom_commands := [(''copy'', ''scp {src} {dst}'')]\<rparr>\<rparr>,
        example_world) =
     (Inr (NeedsParams ''copy'' [''src'', ''dst'']),
      example_agent\<lparr>config := example_config\<lparr>custom_commands := [(''copy'', ''scp {src} {dst}'')]\<rparr>\<rparr>,
      example_world) \<and>
   plain_template ''scp '' [(''src'', '' ''), (''dst'', [])] \<and>
   length [(''src'', '' ''), (''dst'', [])] \<le> length [''a'', ''b''] \<and>
   resolve_template ''copy'' ''scp {src} {dst}'' [''a'', ''b''] = Inr (Inr ''scp a b'') \<and>
   distinct [''src'', ''dst''] \<and>
   bound_value [''src'', ''dst''] [''a'', ''b''] ''dst'' = ''b''"
proof -
  let ?a = "example_agent\<lparr>config := example_config\<lparr>custom_commands := [(''copy'', ''scp {src} {dst}'')]\<rparr>\<rparr>"
  note t = quick_command_resolution [where plain = "''df -h''" and n = "''copy''" and
      args = "[''x'']" and t = "''scp {src} {dst}''" and few = "[''a'']" and a = ?a and
      env = "example_env True" and w = example_world and lit = "''scp ''" and
      segs = "[(''src'', '' ''), (''dst'', [])]" and enough = "[''a'', ''b'']" and
      names = "[''src'', ''dst'']" and i = 1]
  have h1: "CHR ''}'' \<notin> set ''df -h''" by simp
  have h2: "CHR ''{'' \<in> set ''scp {src} {dst}'' \<and> CHR ''}'' \<in> set ''scp {src} {dst}''" by simp
  have names: "finditer param_pattern ''scp {src} {dst}'' = [''src'', ''dst'']" by code_simp
  have h3: "length [''a''] < length (finditer param_pattern ''scp {src} {dst}'')"
    by (simp add: names)
  have h4: "lookup_template (custom_commands (config ?a)) ''copy'' = Some ''scp {src} {dst}''"
    by (simp add: lookup_template_def)
  have h5: "plain_template ''scp '' [(''src'', '' ''), (''dst'', [])]" by code_simp
  have r: "render ''scp '' [(''src'', '' ''), (''dst'', [])] = ''scp {src} {dst}''" by simp
  have f: "fill (bound_value (map fst [(''src'', '' ''), (''dst'', [])]) [''a'', ''b'']) ''scp ''
             [(''src'', '' ''), (''dst'', [])] = ''scp a b''"
    by (simp add: bound_value_def)
  have c1: "resolve_template ''copy'' ''df -h'' [''x''] = Inr (Inr ''df -h'')"
    using t h1 by simp
  have c1': "resolve_template ''disk-usage'' ''df -h'' [''x''] = Inr (Inr ''df -h'')"
    using quick_command_resolution [where plain = "''df -h''" and n = "''disk-usage''" and
      args = "[''x'']"] h1 by simp
  have c2: "execute_quick_command (example_env True) ''copy'' [''a''] (?a, example_world) =
     (Inr (NeedsParams ''copy'' [''src'', ''dst'']), ?a, example_world)"
    using t h2 h3 h4 by (simp add: names)
  have c3: "resolve_template ''copy'' ''scp {src} {dst}'' [''a'', ''b''] = Inr (Inr ''scp a b'')"
    using t h5 by (simp only: r f) simp
  have c4: "bound_value [''src'', ''dst''] [''a'', ''b''] ''dst'' = ''b''"
    using t by simp
  show ?thesis using h1 h2 h3 h4 h5 c1' c2 c3 c4 by simp
qed

section \<open>Properties of the confirmation gate\<close>

lemma gated_no_popen: "\<not> list_ex is_popen es \<Longrightarrow> gated env cmd dir seen es"
  by (induction es arbitrary: seen) (auto simp: is_popen_def split: event.splits)

lemma gated_append:
  "gated env cmd dir seen (es1 @ es2) =
     (gated env cmd dir seen es1 \<and> gated env cmd dir (seen @ es1) es2)"
  by (induction es1 arbitrary: seen) auto

lemma run_process_events:
  assumes "run_process env cmd (a, w) = (r, a', w')"
  shows "\<exists>tail. events w' = events w @ Popen cmd (current_dir a) # tail \<and> \<not> list_ex is_popen tail"
proof (cases "popen env (events w) cmd (current_dir a)")
  case (Raised e)
  then have "events w' = events w @ Popen cmd (current_dir a) # [LogError e]"
    using assms by (auto simp: run_process_def Let_def log_def)
  then show ?thesis by (auto simp: is_popen_def)
next
  case (Exited returncode out err)
  let ?w = "log (Popen cmd (current_dir a)) w"
  show ?thesis
  proof (cases "returncode = 0 \<and>
      list_ex (contains cmd) [''apt'', ''yum'', ''dnf'', ''systemctl'', ''docker'', ''kubectl'']")
    case False
    then have "events w' = events w @ Popen cmd (current_dir a) # []"
      using assms Exited by (auto simp: run_process_def Let_def log_def split: if_splits)
    then show ?thesis by (auto simp: is_popen_def)
  next
    case True
    obtain a2 w2 where c: "collect_system_info env (a, ?w) = (a2, w2)"
      by (cases "collect_system_info env (a, ?w)") auto
    have "w' = w2" using assms Exited True c by (simp add: run_process_def Let_def)
    then have "events w' = events w @ Popen cmd (current_dir a) #
        map (\<lambda>kc. Run (snd kc)) SYSTEM_INFO_COMMANDS"
      using collect_system_info_effect [OF c] by (simp add: log_def)
    then show ?thesis using no_popen_runs by blast
  qed
qed

lemma record_command_events:
  assumes "record_command env cmd (a, w) = (a2, w2)"
  shows "current_dir a2 = current_dir a \<and>
         (\<exists>rec. events w2 = events w @ rec \<and> \<not> list_ex is_popen rec)"
proof -
  have "events w2 = events w @ [] \<or> events w2 = events w @ [SaveConfig] \<or>
        events w2 = events w @ [LogError ''save_config'']"
    using assms
    by (auto simp: record_command_def save_config_def Let_def log_def split: if_splits)
  moreover have "\<not> list_ex is_popen []" "\<not> list_ex is_popen [SaveConfig]"
    "\<not> list_ex is_popen [LogError ''save_config'']"
    by (simp_all add: is_popen_def)
  ultimately have "\<exists>rec. events w2 = events w @ rec \<and> \<not> list_ex is_popen rec"
    by blast
  then show ?thesis
    using assms
    by (auto simp: record_command_def save_config_def Let_def split: if_splits)
qed

lemma execute_command_gated:
  assumes res: "execute_command env command (a, w) = (r, a', w')"
  shows "gated env (expand_alias (aliases (config a)) command) (current_dir a) (events w) (added w w')"
proof (cases "startswith (strip (expand_alias (aliases (config a)) command)) ''cd ''")
  case True
  have "\<not> list_ex is_popen (added w w')"
    using cd_v05 [OF True res] by (simp add: Let_def)
  then show ?thesis by (rule gated_no_popen)
next
  case False
  let ?cmd = "expand_alias (aliases (config a)) command"
  let ?w = "log (LogInfo command) w"
  obtain a2 w2 where rc: "record_command env ?cmd (a, ?w) = (a2, w2)"
    by (cases "record_command env ?cmd (a, ?w)") auto
  obtain rec where dir: "current_dir a2 = current_dir a"
    and ev2: "events w2 = events w @ LogInfo command # rec" and np: "\<not> list_ex is_popen rec"
    using record_command_events [OF rc] by (auto simp: log_def)
  let ?pre = "LogInfo command # rec"
  have pre: "\<not> list_ex is_popen ?pre" using np by (simp add: is_popen_def)
  show ?thesis
  proof (cases "is_dangerous_command ?cmd")
    case (Inl e)
    then have "w' = w2" using res False rc by (simp add: execute_command_def Let_def)
    then have "added w w' = ?pre" by (simp add: added_def ev2)
    then show ?thesis using gated_no_popen [OF pre] by simp
  next
    case (Inr dangerous)
    show ?thesis
    proof (cases dangerous)
      case False
      have rp: "run_process env ?cmd (a2, w2) = (r, a', w')"
        using res \<open>\<not> startswith (strip ?cmd) ''cd ''\<close> rc Inr False
        by (simp add: execute_command_def Let_def)
      obtain tail where t: "events w' = events w2 @ Popen ?cmd (current_dir a2) # tail"
        and nt: "\<not> list_ex is_popen tail"
        using run_process_events [OF rp] by blast
      have ad: "added w w' = ?pre @ [Popen ?cmd (current_dir a)] @ tail"
        by (simp add: added_def t ev2 dir)
      have "gated env ?cmd (current_dir a) (events w) (?pre @ [Popen ?cmd (current_dir a)] @ tail)"
        unfolding gated_append
        using gated_no_popen [OF pre] gated_no_popen [OF nt] Inr False by simp
      then show ?thesis by (simp only: ad)
    next
      case True
      let ?w3 = "log (Confirm ?cmd) w2"
      show ?thesis
      proof (cases "confirm env (events w2) ?cmd")
        case False
        then have "w' = ?w3"
          using res \<open>\<not> startswith (strip ?cmd) ''cd ''\<close> rc Inr True
          by (simp add: execute_command_def Let_def)
        then have ad: "added w w' = ?pre @ [Confirm ?cmd]" by (simp add: added_def ev2 log_def)
        have "\<not> list_ex is_popen (?pre @ [Confirm ?cmd])" using pre by (simp add: is_popen_def)
        then have "gated env ?cmd (current_dir a) (events w) (?pre @ [Confirm ?cmd])"
          by (rule gated_no_popen)
        then show ?thesis by (simp only: ad)
      next
        case yes: True
        have rp: "run_process env ?cmd (a2, ?w3) = (r, a', w')"
          using res \<open>\<not> startswith (strip ?cmd) ''cd ''\<close> rc Inr True yes
          by (simp add: execute_command_def Let_def)
        obtain tail where t: "events w' = events ?w3 @ Popen ?cmd (current_dir a2) # tail"
          and nt: "\<not> list_ex is_popen tail"
          using run_process_events [OF rp] by blast
        have ad: "added w w' = ?pre @ [Confirm ?cmd] @ [Popen ?cmd (current_dir a)] @ tail"
          by (simp add: added_def t ev2 dir log_def)
        have c: "\<not> list_ex is_popen [Confirm ?cmd]" by (simp add: is_popen_def)
        have bl: "butlast (events w @ LogInfo command # rec @ [Confirm ?cmd]) =
                  events w @ LogInfo command # rec"
          using butlast_snoc [of "events w @ LogInfo command # rec" "Confirm ?cmd"] by simp
        have "gated env ?cmd (current_dir a) (events w)
                (?pre @ [Confirm ?cmd] @ [Popen ?cmd (current_dir a)] @ tail)"
          unfolding gated_append
          using gated_no_popen [OF pre] gated_no_popen [OF c] gated_no_popen [OF nt] Inr True yes
          by (simp add: ev2 bl)
        then show ?thesis by (simp only: ad)
      qed
    qed
  qed
qed

lemma execute_quick_command_gated:
  assumes res: "execute_quick_command env cmd_name args (a, w) = (r, a', w')"
  shows "case resolve (custom_commands (config a)) cmd_name args of
           Inr (Inr cmd) \<Rightarrow>
             gated env (expand_alias (aliases (config a)) cmd) (current_dir a) (events w) (added w w')
         | _ \<Rightarrow> a' = a \<and> w' = w"
proof (cases "resolve (custom_commands (config a)) cmd_name args")
  case (Inl e)
  then show ?thesis using res by (simp add: execute_quick_command_def)
next
  case (Inr m)
  show ?thesis
  proof (cases m)
    case (Inl msg)
    then show ?thesis using res Inr by (simp add: execute_quick_command_def)
  next
    case cmd: (Inr cmd)
    obtain r2 a2 w2 where ex: "execute_command env cmd (a, w) = (r2, a2, w2)"
      by (cases "execute_command env cmd (a, w)") auto
    have "w' = w2" using res Inr cmd ex
      by (cases r2) (simp_all add: execute_quick_command_def)
    then show ?thesis using execute_command_gated [OF ex] Inr cmd by simp
  qed
qed

lemma wipe_resolved:
  "resolve (custom_commands (config example_agent_custom)) ''wipe'' [''/a''] = Inr (Inr ''rm -rf /a'')"
  by code_simp

lemma wipe_confirmed_events:
  "added example_world (snd (snd (execute_quick_command (example_env True) ''wipe'' [''/a'']
      (example_agent_custom, example_world)))) =
   [LogInfo ''rm -rf /a'', SaveConfig, Confirm ''rm -rf /a'', Popen ''rm -rf /a'' ''/a/b'']"
  by code_simp

lemma wipe_declined_events:
  "added example_world (snd (snd (execute_quick_command (example_env False) ''wipe'' [''/a'']
      (example_agent_custom, example_world)))) =
   [LogInfo ''rm -rf /a'', SaveConfig, Confirm ''rm -rf /a'']"
  by code_simp

lemma clean_declined_events:
  "added example_world (snd (snd (execute_command (example_env False) ''clean /a''
      (example_agent_custom, example_world)))) =
   [LogInfo ''clean /a'', SaveConfig, Confirm ''rm -rf /a'']"
  by code_simp

lemma expand_alias_first_match:
  assumes "list_all (\<lambda>entry. \<not> alias_matches command (fst entry)) pre"
    and "alias_matches command al"
  shows "expand_alias (pre @ (al, cmd) # post) command = replace_first command al cmd"
  using assms by (induction pre) (auto simp: alias_matches_def)

lemma expand_alias_no_match:
  assumes "list_all (\<lambda>entry. \<not> alias_matches command (fst entry)) table"
  shows "expand_alias table command = command"
  using assms by (induction table) (auto simp: alias_matches_def)

lemma replace_first_prefix: "replace_first (al @ rest) al cmd = cmd @ rest"
proof -
  have s: "startswith (al @ rest) al" by (induction al) auto
  show ?thesis
  proof (cases "al @ rest")
    case Nil
    then show ?thesis by simp
  next
    case (Cons c cs)
    have "replace_first (c # cs) al cmd = cmd @ drop (length al) (c # cs)"
      using s by (simp add: Cons)
    then show ?thesis by (simp add: Cons [symmetric])
  qed
qed

lemma clean_confirmed_events:
  "added example_world (snd (snd (execute_command (example_env True) ''clean /a''
      (example_agent_custom, example_world)))) =
   [LogInfo ''clean /a'', SaveConfig, Confirm ''rm -rf /a'', Popen ''rm -rf /a'' ''/a/b'']"
  by code_simp

lemma ls_events:
  "added example_world (snd (snd (execute_command (example_env True) ''ls /a''
      (example_agent_custom, example_world)))) = [LogInfo ''ls /a'', Popen ''ls /a'' ''/a/b'']"
  by code_simp

text \<open>
  C10. The alias step replaces the first alias of the table that the command is or starts
  with, once, by its definition: a command that starts with the alias is then the
  definition followed by the rest of the command. A quick command is resolved first, its
  placeholders replaced by the arguments, and the resolved command goes through the alias
  step as well. Whatever \<^verbatim>\<open>subprocess.Popen\<close> receives is this final text, run in the tracked
  directory, and the classifier and the confirmation prompt are applied to this very text
  and not to the text that was entered: a subprocess for a final text found dangerous comes
  right after the prompt for it, answered with yes. A quick command that does not resolve
  leaves the state as it was.
\<close>

theorem gate_on_expanded_command:
  "(aliases (config a) = pre @ (al, cmd) # post \<and>
    list_all (\<lambda>entry. \<not> alias_matches command (fst entry)) pre \<and> alias_matches command al \<longrightarrow>
      (case execute_command env command (a, w) of (r, a', w') \<Rightarrow>
         gated env (replace_first command al cmd) (current_dir a) (events w) (added w w'))) \<and>
   replace_first (al @ rest) al cmd = cmd @ rest \<and>
   (list_all (\<lambda>entry. \<not> alias_matches other (fst entry)) (aliases (config b)) \<longrightarrow>
      (case execute_command env other (b, w) of (r, b', w') \<Rightarrow>
         gated env other (current_dir b) (events w) (added w w'))) \<and>
   (lookup_template (custom_commands (config q)) cmd_name = Some (render lit segs) \<and>
    plain_template lit segs \<and> length segs \<le> length args \<longrightarrow>
      (case execute_quick_command env cmd_name args (q, w) of (r, q', w') \<Rightarrow>
         gated env
           (expand_alias (aliases (config q)) (fill (bound_value (map fst segs) args) lit segs))
           (current_dir q) (events w) (added w w'))) \<and>
   (case execute_quick_command env name params (q, w) of (r, q', w') \<Rightarrow>
      (case resolve (custom_commands (config q)) name params of
         Inr (Inr resolved) \<Rightarrow>
           gated env (expand_alias (aliases (config q)) resolved) (current_dir q) (events w)
             (added w w')
       | _ \<Rightarrow> q' = q \<and> w' = w))"
proof (intro conjI impI)
  assume h: "aliases (config a) = pre @ (al, cmd) # post \<and>
    list_all (\<lambda>entry. \<not> alias_matches command (fst entry)) pre \<and> alias_matches command al"
  obtain r a' w' where res: "execute_command env command (a, w) = (r, a', w')"
    by (cases "execute_command env command (a, w)") auto
  have e: "expand_alias (aliases (config a)) command = replace_first command al cmd"
    using h expand_alias_first_match [of command pre al cmd post] by simp
  show "case execute_command env command (a, w) of (r, a', w') \<Rightarrow>
         gated env (replace_first command al cmd) (current_dir a) (events w) (added w w')"
    unfolding res prod.case using execute_command_gated [OF res] by (simp only: e)
next
  show "replace_first (al @ rest) al cmd = cmd @ rest" by (rule replace_first_prefix)
next
  assume h: "list_all (\<lambda>entry. \<not> alias_matches other (fst entry)) (aliases (config b))"
  obtain r b' w' where res: "execute_command env other (b, w) = (r, b', w')"
    by (cases "execute_command env other (b, w)") auto
  have e: "expand_alias (aliases (config b)) other = other"
    using h by (rule expand_alias_no_match)
  show "case execute_command env other (b, w) of (r, b', w') \<Rightarrow>
         gated env other (current_dir b) (events w) (added w w')"
    unfolding res prod.case using execute_command_gated [OF res] by (simp only: e)
next
  assume h: "lookup_template (custom_commands (config q)) cmd_name = Some (render lit segs) \<and>
    plain_template lit segs \<and> length segs \<le> length args"
  obtain r q' w' where res: "execute_quick_command env cmd_name args (q, w) = (r, q', w')"
    by (cases "execute_quick_command env cmd_name args (q, w)") auto
  have rs: "resolve (custom_commands (config q)) cmd_name args =
      Inr (Inr (fill (bound_value (map fst segs) args) lit segs))"
    using h by (simp add: resolve_def resolve_template_render)
  show "case execute_quick_command env cmd_name args (q, w) of (r, q', w') \<Rightarrow>
         gated env
           (expand_alias (aliases (config q)) (fill (bound_value (map fst segs) args) lit segs))
           (current_dir q) (events w) (added w w')"
    unfolding res prod.case using execute_quick_command_gated [OF res] by (simp add: rs)
next
  obtain r q' w' where res: "execute_quick_command env name params (q, w) = (r, q', w')"
    by (cases "execute_quick_command env name params (q, w)") auto
  show "case execute_quick_command env name params (q, w) of (r, q', w') \<Rightarrow>
      (case resolve (custom_commands (config q)) name params of
         Inr (Inr resolved) \<Rightarrow>
           gated env (expand_alias (aliases (config q)) resolved) (current_dir q) (events w)
             (added w w')
       | _ \<Rightarrow> q' = q \<and> w' = w)"
    unfolding res prod.case by (rule execute_quick_command_gated [OF res])
qed

theorem gate_on_expanded_command_witness:
  "aliases (config example_agent_custom) = [] @ (''clean'', ''rm -rf'') # [] \<and>
   alias_matches ''clean /a'' ''clean'' \<and>
   replace_first ''clean /a'' ''clean'' ''rm -rf'' = ''rm -rf /a'' \<and>
   is_dangerous_command ''clean /a'' = Inr False \<and>
   is_dangerous_command ''rm -rf /a'' = Inr True \<and>
   added example_world (snd (snd (execute_command (example_env True) ''clean /a''
      (example_agent_custom, example_world)))) =
     [LogInfo ''clean /a'', SaveConfig, Confirm ''rm -rf /a'', Popen ''rm -rf /a'' ''/a/b''] \<and>
   gated (example_env True) ''rm -rf /a'' ''/a/b'' []
     [LogInfo ''clean /a'', SaveConfig, Confirm ''rm -rf /a'', Popen ''rm -rf /a'' ''/a/b''] \<and>
   \<not> gated (example_env True) ''clean /a'' ''/a/b'' []
     [LogInfo ''clean /a'', SaveConfig, Confirm ''rm -rf /a'', Popen ''rm -rf /a'' ''/a/b''] \<and>
   gated (example_env False) ''rm -rf /a'' ''/a/b'' []
     [LogInfo ''clean /a'', SaveConfig, Confirm ''rm -rf /a''] \<and>
   list_all (\<lambda>entry. \<not> alias_matches ''ls /a'' (fst entry)) (aliases (config example_agent_custom)) \<and>
   gated (example_env True) ''ls /a'' ''/a/b'' [] [LogInfo ''ls /a'', Popen ''ls /a'' ''/a/b''] \<and>
   lookup_template (custom_commands (config example_agent_custom)) ''wipe'' =
     Some (render ''rm -rf '' [(''path'', [])]) \<and>
   plain_template ''rm -rf '' [(''path'', [])] \<and>
   length [(''path'', [])] \<le> length [''/a''] \<and>
   fill (bound_value (map fst [(''path'', [])]) [''/a'']) ''rm -rf '' [(''path'', [])] = ''rm -rf /a'' \<and>
   gated (example_env True) ''rm -rf /a'' ''/a/b'' []
     [LogInfo ''rm -rf /a'', SaveConfig, Confirm ''rm -rf /a'', Popen ''rm -rf /a'' ''/a/b''] \<and>
   execute_quick_command (example_env True) ''wipe'' [] (example_agent_custom, example_world) =
     (Inr (NeedsParams ''wipe'' [''path'']), example_agent_custom, example_world)"
proof -
  have tbl: "aliases (config example_agent_custom) = [] @ (''clean'', ''rm -rf'') # []"
    by (simp add: example_agent_custom_def)
  have m: "alias_matches ''clean /a'' ''clean''" by code_simp
  have d: "current_dir example_agent_custom = ''/a/b''" "events example_world = []"
    by (simp_all add: example_agent_custom_def example_agent_def example_world_def)
  have rp: "replace_first ''clean /a'' ''clean'' ''rm -rf'' = ''rm -rf /a''"
    using gate_on_expanded_command [where al = "''clean''" and rest = "'' /a''" and cmd = "''rm -rf''"]
    by simp
  have c1: "is_dangerous_command ''clean /a'' = Inr False" by code_simp
  have c2: "is_dangerous_command ''rm -rf /a'' = Inr True" by code_simp
  have g1: "gated (example_env True) ''rm -rf /a'' ''/a/b'' []
     [LogInfo ''clean /a'', SaveConfig, Confirm ''rm -rf /a'', Popen ''rm -rf /a'' ''/a/b'']"
    using gate_on_expanded_command [where env = "example_env True" and a = example_agent_custom
      and w = example_world and pre = "[]" and al = "''clean''" and cmd = "''rm -rf''"
      and post = "[]" and command = "''clean /a''"] tbl m
    by (simp add: case_prod_beta clean_confirmed_events rp d)
  have n1: "\<not> gated (example_env True) ''clean /a'' ''/a/b'' []
     [LogInfo ''clean /a'', SaveConfig, Confirm ''rm -rf /a'', Popen ''rm -rf /a'' ''/a/b'']"
    by simp
  have g2: "gated (example_env False) ''rm -rf /a'' ''/a/b'' []
     [LogInfo ''clean /a'', SaveConfig, Confirm ''rm -rf /a'']"
    using gate_on_expanded_command [where env = "example_env False" and a = example_agent_custom
      and w = example_world and pre = "[]" and al = "''clean''" and cmd = "''rm -rf''"
      and post = "[]" and command = "''clean /a''"] tbl m
    by (simp add: case_prod_beta clean_declined_events rp d)
  have nm: "list_all (\<lambda>entry. \<not> alias_matches ''ls /a'' (fst entry)) (aliases (config example_agent_custom))"
    by code_simp
  have g3: "gated (example_env True) ''ls /a'' ''/a/b'' [] [LogInfo ''ls /a'', Popen ''ls /a'' ''/a/b'']"
    using gate_on_expanded_command [where env = "example_env True" and b = example_agent_custom
      and w = example_world and other = "''ls /a''"] nm
    by (simp add: case_prod_beta ls_events d)
  have lk: "lookup_template (custom_commands (config example_agent_custom)) ''wipe'' =
     Some (render ''rm -rf '' [(''path'', [])])"
    by (simp add: lookup_template_def example_agent_custom_def)
  have pt: "plain_template ''rm -rf '' [(''path'', [])]" by code_simp
  have fl: "fill (bound_value (map fst [(''path'', [])]) [''/a'']) ''rm -rf '' [(''path'', [])] = ''rm -rf /a''"
    by (simp add: bound_value_def)
  have ea: "expand_alias (aliases (config example_agent_custom)) ''rm -rf /a'' = ''rm -rf /a''"
    by code_simp
  have g4: "gated (example_env True) ''rm -rf /a'' ''/a/b'' []
     [LogInfo ''rm -rf /a'', SaveConfig, Confirm ''rm -rf /a'', Popen ''rm -rf /a'' ''/a/b'']"
    using gate_on_expanded_command [where env = "example_env True" and q = example_agent_custom
      and w = example_world and cmd_name = "''wipe''" and lit = "''rm -rf ''"
      and segs = "[(''path'', [])]" and args = "[''/a'']"] lk pt
    by (simp only: fl ea) (simp add: case_prod_beta wipe_confirmed_events d)
  have rs: "resolve (custom_commands (config example_agent_custom)) ''wipe'' [] =
      Inr (Inl (NeedsParams ''wipe'' [''path'']))"
    by code_simp
  have g5: "execute_quick_command (example_env True) ''wipe'' [] (example_agent_custom, example_world) =
     (Inr (NeedsParams ''wipe'' [''path'']), example_agent_custom, example_world)"
    using gate_on_expanded_command [where env = "example_env True" and q = example_agent_custom
      and w = example_world and name = "''wipe''" and params = "[]"]
    by (simp add: rs execute_quick_command_def)
  show ?thesis using tbl m rp c1 c2 clean_confirmed_events g1 n1 g2 nm g3 lk pt fl g4 g5 by simp
qed

section \<open>Properties of the saved contexts\<close>






section \<open>Properties of the directive parser\<close>

lemma word_not_space: "is_word c \<Longrightarrow> \<not> is_space c"
  by (auto simp: is_word_def is_space_def Let_def)

lemma word_not_bracket: "is_word c \<Longrightarrow> c \<noteq> CHR ''['' \<and> c \<noteq> CHR '']''"
  by (auto simp: is_word_def Let_def)

lemma startswith_append: "startswith (p @ s) p"
  by (induction p) auto

lemma lazy_until_body:
  assumes "no_open body" and "hd cl = CHR ''[''" and "cl \<noteq> []"
    and "dotall \<or> CHR 0x0A \<notin> set body"
  shows "lazy_until dotall cl acc (body @ cl @ R) =
           Some (acc @ body, length acc + length body + length cl)"
  using assms
proof (induction body arbitrary: acc)
  case Nil
  obtain c cs where cl: "cl = c # cs" using Nil.prems(3) by (cases cl) auto
  have "startswith (cl @ R) cl" by (rule startswith_append)
  then show ?case by (simp add: cl)
next
  case (Cons c body)
  obtain x xs where cl: "cl = x # xs" using Cons.prems(3) by (cases cl) auto
  have c: "c \<noteq> CHR ''[''" and nb: "no_open body" using Cons.prems(1) by (auto simp: no_open_def)
  have x: "x = CHR ''[''" using Cons.prems(2) by (simp add: cl)
  have ns: "\<not> startswith (c # body @ cl @ R) cl" using c x by (simp add: cl)
  have nl: "dotall \<or> c \<noteq> CHR 0x0A" "dotall \<or> CHR 0x0A \<notin> set body" using Cons.prems(4) by auto
  have "lazy_until dotall cl acc ((c # body) @ cl @ R) = lazy_until dotall cl (acc @ [c]) (body @ cl @ R)"
    using ns nl(1) by auto
  then show ?case using Cons.IH [OF nb Cons.prems(2,3) nl(2), of "acc @ [c]"] by simp
qed

lemma takeWhile_run:
  assumes "\<forall>x \<in> set xs. P x" and "ys = [] \<or> \<not> P (hd ys)"
  shows "takeWhile P (xs @ ys) = xs \<and> dropWhile P (xs @ ys) = ys"
  using assms by (induction xs) (cases ys; auto)+

lemma plain_word_props:
  assumes "plain_word k"
  shows "k \<noteq> []" and "\<forall>c \<in> set k. is_word c" and "\<not> is_space (hd k)" and "\<not> is_space (last k)"
    and "no_open k"
proof -
  show ne: "k \<noteq> []" and w: "\<forall>c \<in> set k. is_word c"
    using assms by (auto simp: plain_word_def list_all_iff)
  show "\<not> is_space (hd k)" using ne w word_not_space by (cases k) auto
  show "\<not> is_space (last k)" using ne w word_not_space last_in_set by blast
  show "no_open k" using w word_not_bracket by (auto simp: no_open_def list_ex_iff)
qed

lemma plain_token_props:
  assumes "plain_token n"
  shows "n \<noteq> []" and "\<forall>c \<in> set n. \<not> is_space c" and "\<forall>c \<in> set n. c \<noteq> CHR '']''"
    and "no_open n" and "\<not> is_space (hd n)" and "\<not> is_space (last n)"
proof -
  show ne: "n \<noteq> []" and s: "\<forall>c \<in> set n. \<not> is_space c" and "\<forall>c \<in> set n. c \<noteq> CHR '']''"
    and "no_open n"
    using assms by (auto simp: plain_token_def no_open_def list_ex_iff)
  show "\<not> is_space (hd n)" using ne s by (cases n) auto
  show "\<not> is_space (last n)" using ne s last_in_set by blast
qed

lemma strip_id:
  assumes "s \<noteq> []" and "\<not> is_space (hd s)" and "\<not> is_space (last s)"
  shows "strip s = s"
proof -
  have a: "dropWhile is_space s = s" using assms(1,2) by (cases s) auto
  have "rev s \<noteq> []" "\<not> is_space (hd (rev s))" using assms(1,3) by (simp_all add: hd_rev)
  then have "dropWhile is_space (rev s) = rev s" by (cases "rev s") auto
  then show ?thesis by (simp add: strip_def a)
qed

lemma header_plain:
  assumes k: "plain_word k" and n: "plain_token n"
  shows "header ('' '' @ k @ '' '' @ n @ '']'' @ R) = Some ((k, n), length k + length n + 3)"
proof -
  let ?r3 = "n @ CHR '']'' # R"
  let ?r2 = "CHR '' '' # ?r3"
  let ?r1 = "k @ ?r2"
  have sp: "is_space CHR '' ''" "\<not> is_word CHR '' ''" "\<not> is_space CHR '']''"
    by (simp_all add: is_space_def is_word_def)
  have hk: "\<not> is_space (hd ?r1)" using plain_word_props(1,3) [OF k] by (cases k) auto
  have hn: "\<not> is_space (hd ?r3)" using plain_token_props(1,5) [OF n] by (cases n) auto
  have w1: "takeWhile is_space (CHR '' '' # ?r1) = '' ''" "dropWhile is_space (CHR '' '' # ?r1) = ?r1"
    using takeWhile_run [of "'' ''" is_space ?r1] hk sp by simp_all
  have kd: "takeWhile is_word ?r1 = k" "dropWhile is_word ?r1 = ?r2"
    using takeWhile_run [of k is_word ?r2] plain_word_props(2) [OF k] sp by simp_all
  have w2: "takeWhile is_space ?r2 = '' ''" "dropWhile is_space ?r2 = ?r3"
    using takeWhile_run [of "'' ''" is_space ?r3] hn sp by simp_all
  have g: "takeWhile (\<lambda>c. c \<noteq> CHR '']'') ?r3 = n" "dropWhile (\<lambda>c. c \<noteq> CHR '']'') ?r3 = CHR '']'' # R"
    using takeWhile_run [of n "\<lambda>c. c \<noteq> CHR '']''" "CHR '']'' # R"] plain_token_props(3) [OF n]
    by simp_all
  have eq: "'' '' @ k @ '' '' @ n @ '']'' @ R = CHR '' '' # ?r1" by simp
  show ?thesis
    unfolding eq header_def Let_def w1 kd w2 g
    using plain_word_props(1) [OF k] plain_token_props(1) [OF n] by simp
qed

lemma spaced_Cons: "spaced (a # as) = CHR '' '' # a @ spaced as"
  by (simp add: spaced_def)

lemma spaced_Nil: "spaced [] = []"
  by (simp add: spaced_def)

lemma spaced_no_close:
  "list_all plain_token args \<Longrightarrow> \<forall>c \<in> set (spaced args). c \<noteq> CHR '']'' \<and> c \<noteq> CHR ''[''"
proof (induction args)
  case Nil
  then show ?case by (simp add: spaced_Nil)
next
  case (Cons a args)
  have a: "plain_token a" and rest: "list_all plain_token args" using Cons.prems by simp_all
  have "\<forall>c \<in> set a. c \<noteq> CHR '']'' \<and> c \<noteq> CHR ''[''"
    using plain_token_props(3,4) [OF a] by (auto simp: no_open_def list_ex_iff)
  then show ?case using Cons.IH [OF rest] by (auto simp: spaced_Cons)
qed

lemma header_opt_none:
  assumes n: "plain_word n"
  shows "header_opt ('' '' @ n @ '']'' @ R) = Some ((n, None), length n + 2)"
proof -
  let ?r2 = "CHR '']'' # R"
  let ?r1 = "n @ ?r2"
  have sp: "is_space CHR '' ''" "\<not> is_word CHR '']''" "\<not> is_space CHR '']''"
    by (simp_all add: is_space_def is_word_def)
  have hk: "\<not> is_space (hd ?r1)" using plain_word_props(1,3) [OF n] by (cases n) auto
  have w1: "takeWhile is_space (CHR '' '' # ?r1) = '' ''" "dropWhile is_space (CHR '' '' # ?r1) = ?r1"
    using takeWhile_run [of "'' ''" is_space ?r1] hk sp by simp_all
  have kd: "takeWhile is_word ?r1 = n" "dropWhile is_word ?r1 = ?r2"
    using takeWhile_run [of n is_word ?r2] plain_word_props(2) [OF n] sp by simp_all
  have eq: "'' '' @ n @ '']'' @ R = CHR '' '' # ?r1" by simp
  have w2: "takeWhile is_space ?r2 = []" "dropWhile is_space ?r2 = ?r2"
    using sp by simp_all
  show ?thesis
    unfolding eq header_opt_def Let_def w1 kd w2
    using plain_word_props(1) [OF n] by simp
qed

lemma header_opt_args:
  assumes n: "plain_word n" and a: "plain_token a" and as: "list_all plain_token as"
  shows "header_opt ('' '' @ n @ spaced (a # as) @ '']'' @ R) =
           Some ((n, Some (a @ spaced as)), length n + length (spaced (a # as)) + 2)"
proof -
  let ?g = "a @ spaced as"
  let ?r3 = "?g @ CHR '']'' # R"
  let ?r2 = "CHR '' '' # ?r3"
  let ?r1 = "n @ ?r2"
  have sp: "is_space CHR '' ''" "\<not> is_word CHR '' ''" "\<not> is_space CHR '']''"
    by (simp_all add: is_space_def is_word_def)
  have hk: "\<not> is_space (hd ?r1)" using plain_word_props(1,3) [OF n] by (cases n) auto
  have hn: "\<not> is_space (hd ?r3)" using plain_token_props(1,5) [OF a] by (cases a) auto
  have w1: "takeWhile is_space (CHR '' '' # ?r1) = '' ''" "dropWhile is_space (CHR '' '' # ?r1) = ?r1"
    using takeWhile_run [of "'' ''" is_space ?r1] hk sp by simp_all
  have kd: "takeWhile is_word ?r1 = n" "dropWhile is_word ?r1 = ?r2"
    using takeWhile_run [of n is_word ?r2] plain_word_props(2) [OF n] sp by simp_all
  have w2: "takeWhile is_space ?r2 = '' ''" "dropWhile is_space ?r2 = ?r3"
    using takeWhile_run [of "'' ''" is_space ?r3] hn sp by simp_all
  have nc: "\<forall>c \<in> set ?g. c \<noteq> CHR '']''"
    using plain_token_props(3) [OF a] spaced_no_close [OF as] by auto
  have g: "takeWhile (\<lambda>c. c \<noteq> CHR '']'') ?r3 = ?g" "dropWhile (\<lambda>c. c \<noteq> CHR '']'') ?r3 = CHR '']'' # R"
    using takeWhile_run [of ?g "\<lambda>c. c \<noteq> CHR '']''" "CHR '']'' # R"] nc by simp_all
  have ne: "?g \<noteq> []" using plain_token_props(1) [OF a] by simp
  have "header_opt (CHR '' '' # ?r1) =
          Some ((n, Some ?g), length n + length ?g + 3)"
    unfolding header_opt_def Let_def w1 kd w2 g
    using plain_word_props(1) [OF n] ne by simp
  then show ?thesis by (simp add: spaced_Cons)
qed


lemma scan_Nil: "finditer m [] = [] \<and> sub_empty m [] = []"
  by (simp add: finditer.simps [of m "[]"] sub_empty.simps [of m "[]"])

lemma scan_none:
  "m (c # cs) = None \<Longrightarrow>
     finditer m (c # cs) = finditer m cs \<and> sub_empty m (c # cs) = c # sub_empty m cs"
  by (simp add: finditer.simps [of m "c # cs"] sub_empty.simps [of m "c # cs"])

lemma scan_some:
  "m s = Some (g, n) \<Longrightarrow> s \<noteq> [] \<Longrightarrow> 0 < n \<Longrightarrow>
     finditer m s = g # finditer m (drop n s) \<and> sub_empty m s = sub_empty m (drop n s)"
  by (simp add: finditer.simps [of m s] sub_empty.simps [of m s] max_def)

lemma scan_free:
  assumes bracket: "\<And>c s. c \<noteq> CHR ''['' \<Longrightarrow> m (c # s) = None"
    and "no_open p"
  shows "finditer m (p @ R) = finditer m R \<and> sub_empty m (p @ R) = p @ sub_empty m R"
  using assms(2)
proof (induction p)
  case Nil
  then show ?case by simp
next
  case (Cons c p)
  then have c: "c \<noteq> CHR ''[''" and np: "no_open p" by (auto simp: no_open_def)
  have "m (c # p @ R) = None" using c by (rule bracket)
  then show ?case using scan_none [of m c "p @ R"] Cons.IH [OF np] by simp
qed

lemma other_opening:
  assumes "L \<in> set opening_literals" and "open_tag d \<noteq> L"
  shows "\<not> startswith (open_tag d @ X) L"
  using assms by (cases d) (auto simp: opening_literals_def open_tag_def)

lemma closing_not_opening:
  assumes "L \<in> set opening_literals"
  shows "\<not> startswith (CHR ''['' # CHR ''/'' # X) L"
  using assms by (auto simp: opening_literals_def)

lemma literal_bracket:
  assumes "L \<in> set opening_literals" and "c \<noteq> CHR ''[''"
  shows "\<not> startswith (c # s) L"
  using assms by (auto simp: opening_literals_def)

lemma open_tag_shape: "\<exists>kw. open_tag d = CHR ''['' # kw \<and> no_open kw"
  by (cases d) (simp_all add: open_tag_def no_open_def)

lemma close_tag_shape: "close_tag d = [] \<or> (\<exists>kw. close_tag d = CHR ''['' # CHR ''/'' # kw \<and> no_open kw)"
  by (cases d) (simp_all add: close_tag_def no_open_def)

lemma no_open_append: "no_open (xs @ ys) = (no_open xs \<and> no_open ys)"
  by (auto simp: no_open_def)

lemma no_open_spaced: "list_all plain_token args \<Longrightarrow> no_open (spaced args)"
  using spaced_no_close [of args] by (auto simp: no_open_def list_ex_iff)

lemma no_open_inner:
  assumes "wf_tag d"
  shows "no_open (inner d)"
proof (cases d)
  case (Exec c)
  then show ?thesis using assms by (simp add: wf_tag_def inner_def)
next
  case (Script k n b)
  then show ?thesis
    using assms plain_word_props(5) [of k] plain_token_props(4) [of n]
    by (simp add: wf_tag_def inner_def no_open_append) (simp add: no_open_def)
next
  case (Template k n)
  then show ?thesis
    using assms plain_word_props(5) [of k] plain_token_props(4) [of n]
    by (simp add: wf_tag_def inner_def no_open_append) (simp add: no_open_def)
next
  case (QuickCommand n args)
  then show ?thesis
    using assms plain_word_props(5) [of n] no_open_spaced [of args]
    by (simp add: wf_tag_def inner_def no_open_append) (simp add: no_open_def)
next
  case (ToolCall n args)
  then show ?thesis
    using assms plain_word_props(5) [of n] no_open_spaced [of args]
    by (simp add: wf_tag_def inner_def no_open_append) (simp add: no_open_def)
qed

lemma scan_tag_other:
  assumes O: "\<And>s. \<not> startswith s L \<Longrightarrow> m s = None"
    and L: "L \<in> set opening_literals" and wf: "wf_tag d" and other: "open_tag d \<noteq> L"
  shows "finditer m (render_tag d @ R) = finditer m R \<and>
         sub_empty m (render_tag d @ R) = render_tag d @ sub_empty m R"
proof -
  have bracket: "\<And>c s. c \<noteq> CHR ''['' \<Longrightarrow> m (c # s) = None"
    using O literal_bracket [OF L] by blast
  obtain kw where kw: "open_tag d = CHR ''['' # kw" "no_open kw"
    using open_tag_shape by blast
  let ?mid = "kw @ inner d"
  have mid: "no_open ?mid" using kw(2) no_open_inner [OF wf] by (simp add: no_open_append)
  have first: "m (CHR ''['' # ?mid @ close_tag d @ R) = None"
    using O other_opening [OF L other, of "inner d @ close_tag d @ R"] by (simp add: kw(1))
  have tail: "finditer m (close_tag d @ R) = finditer m R \<and>
              sub_empty m (close_tag d @ R) = close_tag d @ sub_empty m R"
  proof (cases "close_tag d = []")
    case True
    then show ?thesis by simp
  next
    case False
    then obtain cw where cw: "close_tag d = CHR ''['' # CHR ''/'' # cw" "no_open cw"
      using close_tag_shape [of d] by blast
    have nc: "no_open (CHR ''/'' # cw)" using cw(2) by (simp add: no_open_def)
    have "m (CHR ''['' # (CHR ''/'' # cw) @ R) = None"
      using O closing_not_opening [OF L, of "cw @ R"] by simp
    then show ?thesis
      using scan_none [of m "CHR ''[''" "(CHR ''/'' # cw) @ R"]
        scan_free [of m "CHR ''/'' # cw" R, OF bracket nc]
      by (simp add: cw(1))
  qed
  have "render_tag d @ R = CHR ''['' # ?mid @ close_tag d @ R"
    by (simp add: render_tag_def kw(1))
  then show ?thesis
    using scan_none [of m "CHR ''[''" "?mid @ close_tag d @ R"] first
      scan_free [of m ?mid "close_tag d @ R", OF bracket mid] tail
    by simp
qed

lemma render_tag_nonempty: "render_tag d \<noteq> []"
  by (cases d) (simp_all add: render_tag_def open_tag_def)

lemma untagged_simps:
  "untagged pick (Prose p) = True" "untagged pick (Tag d) = (pick d = None)"
  by (simp_all add: untagged_def)

lemma scan_doc:
  assumes bracket: "\<And>c s. c \<noteq> CHR ''['' \<Longrightarrow> m (c # s) = None"
    and tags: "\<And>d R. Tag d \<in> set items \<Longrightarrow>
        (case pick d of
           Some g \<Rightarrow> m (render_tag d @ R) = Some (g, length (render_tag d))
         | None \<Rightarrow> finditer m (render_tag d @ R) = finditer m R \<and>
                   sub_empty m (render_tag d @ R) = render_tag d @ sub_empty m R)"
    and proses: "\<And>p. Prose p \<in> set items \<Longrightarrow> no_open p"
  shows "finditer m (render_doc items) = List.map_filter pick (tags_of items) \<and>
         sub_empty m (render_doc items) = render_doc (filter (untagged pick) items)"
  using tags proses
proof (induction items)
  case Nil
  then show ?case using scan_Nil [of m] by (simp add: List.map_filter_simps)
next
  case (Cons i items)
  have ih: "finditer m (render_doc items) = List.map_filter pick (tags_of items) \<and>
            sub_empty m (render_doc items) = render_doc (filter (untagged pick) items)"
    using Cons.IH Cons.prems by simp
  show ?case
  proof (cases i)
    case (Prose p)
    have "no_open p" using Cons.prems(2) Prose by simp
    then show ?thesis
      using scan_free [of m p "render_doc items", OF bracket] ih
      by (simp add: Prose untagged_simps)
  next
    case (Tag d)
    let ?R = "render_doc items"
    have t: "case pick d of
           Some g \<Rightarrow> m (render_tag d @ ?R) = Some (g, length (render_tag d))
         | None \<Rightarrow> finditer m (render_tag d @ ?R) = finditer m ?R \<and>
                   sub_empty m (render_tag d @ ?R) = render_tag d @ sub_empty m ?R"
      using Cons.prems(1) [of d ?R] Tag by simp
    show ?thesis
    proof (cases "pick d")
      case None
      then show ?thesis using t ih by (simp add: Tag untagged_simps List.map_filter_simps)
    next
      case (Some g)
      then have ms: "m (render_tag d @ ?R) = Some (g, length (render_tag d))" using t by simp
      have "finditer m (render_tag d @ ?R) = g # finditer m ?R \<and>
            sub_empty m (render_tag d @ ?R) = sub_empty m ?R"
        using scan_some [of m "render_tag d @ ?R" g "length (render_tag d)"] ms
          render_tag_nonempty [of d] by simp
      then show ?thesis using ih Some by (simp add: Tag untagged_simps List.map_filter_simps)
    qed
  qed
qed


lemma exec_opening: "\<not> startswith s ''[EXEC]'' \<Longrightarrow> exec_pattern dotall s = None"
  by (simp add: exec_pattern_def)

lemma script_opening: "\<not> startswith s ''[SCRIPT'' \<Longrightarrow> script_pattern dotall s = None"
  by (simp add: script_pattern_def)

lemma template_opening: "\<not> startswith s ''[TEMPLATE'' \<Longrightarrow> template_pattern s = None"
  by (simp add: template_pattern_def)

lemma quickcmd_opening: "\<not> startswith s ''[QUICKCMD'' \<Longrightarrow> quickcmd_pattern s = None"
  by (simp add: quickcmd_pattern_def)

lemma devops_opening: "\<not> startswith s ''[DEVOPS'' \<Longrightarrow> devops_pattern s = None"
  by (simp add: devops_pattern_def)

lemma exec_match:
  assumes "no_open c" and "dotall \<or> CHR 0x0A \<notin> set c"
  shows "exec_pattern dotall (render_tag (Exec c) @ R) = Some (c, length (render_tag (Exec c)))"
proof -
  have r: "render_tag (Exec c) @ R = ''[EXEC]'' @ c @ ''[/EXEC]'' @ R"
    by (simp add: render_tag_def open_tag_def inner_def close_tag_def)
  have s: "startswith (''[EXEC]'' @ c @ ''[/EXEC]'' @ R) ''[EXEC]''" by (rule startswith_append)
  have d: "drop 6 (''[EXEC]'' @ c @ ''[/EXEC]'' @ R) = c @ ''[/EXEC]'' @ R" by simp
  have l: "lazy_until dotall ''[/EXEC]'' [] (c @ ''[/EXEC]'' @ R) = Some ([] @ c, length ([] :: string) + length c + length ''[/EXEC]'')"
    using assms by (intro lazy_until_body) simp_all
  have len: "length (render_tag (Exec c)) = 6 + (length c + 7)"
    by (simp add: render_tag_def open_tag_def inner_def close_tag_def)
  show ?thesis
    unfolding r exec_pattern_def by (simp only: s d l len if_True) simp
qed

lemma script_match:
  assumes k: "plain_word k" and n: "plain_token n" and b: "no_open b"
    and nl: "dotall \<or> CHR 0x0A \<notin> set b"
  shows "script_pattern dotall (render_tag (Script k n b) @ R) =
           Some ((k, n, b), length (render_tag (Script k n b)))"
proof -
  let ?X = "b @ ''[/SCRIPT]'' @ R"
  let ?H = "'' '' @ k @ '' '' @ n @ '']''"
  have r: "render_tag (Script k n b) @ R = ''[SCRIPT'' @ ?H @ ?X"
    by (simp add: render_tag_def open_tag_def inner_def close_tag_def)
  have s: "startswith (''[SCRIPT'' @ ?H @ ?X) ''[SCRIPT''" by (rule startswith_append)
  have d: "drop 7 (''[SCRIPT'' @ ?H @ ?X) = '' '' @ k @ '' '' @ n @ '']'' @ ?X" by simp
  have h: "header ('' '' @ k @ '' '' @ n @ '']'' @ ?X) = Some ((k, n), length k + length n + 3)"
    using k n by (rule header_plain)
  have p: "''[SCRIPT'' @ ?H @ ?X = (''[SCRIPT'' @ ?H) @ ?X" by simp
  have lp: "7 + (length k + length n + 3) = length (''[SCRIPT'' @ ?H)" by simp
  have d2: "drop (7 + (length k + length n + 3)) (''[SCRIPT'' @ ?H @ ?X) = ?X"
    unfolding p lp by (metis append_eq_conv_conj)
  have l: "lazy_until dotall ''[/SCRIPT]'' [] ?X =
             Some ([] @ b, length ([] :: string) + length b + length ''[/SCRIPT]'')"
    using b nl by (intro lazy_until_body) simp_all
  have len: "length (render_tag (Script k n b)) = 7 + (length k + length n + 3) + (length b + 9)"
    by (simp add: render_tag_def open_tag_def inner_def close_tag_def)
  show ?thesis
    unfolding r script_pattern_def by (simp only: s d h d2 l len if_True option.case prod.case) simp
qed

lemma template_match:
  assumes k: "plain_word k" and n: "plain_token n"
  shows "template_pattern (render_tag (Template k n) @ R) =
           Some ((k, n), length (render_tag (Template k n)))"
proof -
  have r: "render_tag (Template k n) @ R = ''[TEMPLATE'' @ '' '' @ k @ '' '' @ n @ '']'' @ R"
    by (simp add: render_tag_def open_tag_def inner_def close_tag_def)
  have s: "startswith (''[TEMPLATE'' @ '' '' @ k @ '' '' @ n @ '']'' @ R) ''[TEMPLATE''"
    by (rule startswith_append)
  have d: "drop 9 (''[TEMPLATE'' @ '' '' @ k @ '' '' @ n @ '']'' @ R) =
             '' '' @ k @ '' '' @ n @ '']'' @ R" by simp
  have h: "header ('' '' @ k @ '' '' @ n @ '']'' @ R) = Some ((k, n), length k + length n + 3)"
    using k n by (rule header_plain)
  have len: "length (render_tag (Template k n)) = 9 + (length k + length n + 3)"
    by (simp add: render_tag_def open_tag_def inner_def close_tag_def)
  show ?thesis
    unfolding r template_pattern_def by (simp only: s d h len if_True) simp
qed

lemma header_opt_spaced:
  assumes n: "plain_word n" and args: "list_all plain_token args"
  shows "header_opt ('' '' @ n @ spaced args @ '']'' @ R) =
           Some ((n, args_group args), length n + length (spaced args) + 2)"
proof (cases args)
  case Nil
  then show ?thesis using header_opt_none [OF n, of R] by (simp add: args_group_def spaced_Nil)
next
  case (Cons a as)
  then have a: "plain_token a" and as: "list_all plain_token as" using args by simp_all
  show ?thesis
    using header_opt_args [OF n a as, of R] by (simp add: Cons args_group_def spaced_Cons)
qed

lemma quickcmd_match:
  assumes n: "plain_word n" and args: "list_all plain_token args"
  shows "quickcmd_pattern (render_tag (QuickCommand n args) @ R) =
           Some ((n, args_group args), length (render_tag (QuickCommand n args)))"
proof -
  have r: "render_tag (QuickCommand n args) @ R = ''[QUICKCMD'' @ '' '' @ n @ spaced args @ '']'' @ R"
    by (simp add: render_tag_def open_tag_def inner_def close_tag_def)
  have s: "startswith (''[QUICKCMD'' @ '' '' @ n @ spaced args @ '']'' @ R) ''[QUICKCMD''"
    by (rule startswith_append)
  have d: "drop 9 (''[QUICKCMD'' @ '' '' @ n @ spaced args @ '']'' @ R) =
             '' '' @ n @ spaced args @ '']'' @ R" by simp
  have h: "header_opt ('' '' @ n @ spaced args @ '']'' @ R) =
             Some ((n, args_group args), length n + length (spaced args) + 2)"
    using n args by (rule header_opt_spaced)
  have len: "length (render_tag (QuickCommand n args)) = 9 + (length n + length (spaced args) + 2)"
    by (simp add: render_tag_def open_tag_def inner_def close_tag_def)
  show ?thesis
    unfolding r quickcmd_pattern_def by (simp only: s d h len if_True) simp
qed

lemma devops_match:
  assumes n: "plain_word n" and args: "list_all plain_token args"
  shows "devops_pattern (render_tag (ToolCall n args) @ R) =
           Some ((n, args_group args), length (render_tag (ToolCall n args)))"
proof -
  have r: "render_tag (ToolCall n args) @ R = ''[DEVOPS'' @ '' '' @ n @ spaced args @ '']'' @ R"
    by (simp add: render_tag_def open_tag_def inner_def close_tag_def)
  have s: "startswith (''[DEVOPS'' @ '' '' @ n @ spaced args @ '']'' @ R) ''[DEVOPS''"
    by (rule startswith_append)
  have d: "drop 7 (''[DEVOPS'' @ '' '' @ n @ spaced args @ '']'' @ R) =
             '' '' @ n @ spaced args @ '']'' @ R" by simp
  have h: "header_opt ('' '' @ n @ spaced args @ '']'' @ R) =
             Some ((n, args_group args), length n + length (spaced args) + 2)"
    using n args by (rule header_opt_spaced)
  have len: "length (render_tag (ToolCall n args)) = 7 + (length n + length (spaced args) + 2)"
    by (simp add: render_tag_def open_tag_def inner_def close_tag_def)
  show ?thesis
    unfolding r devops_pattern_def by (simp only: s d h len if_True) simp
qed


lemma pattern_doc:
  assumes O: "\<And>s. \<not> startswith s L \<Longrightarrow> m s = None"
    and L: "L \<in> set opening_literals"
    and own: "\<And>d R. wf_tag d \<Longrightarrow> Tag d \<in> set items \<Longrightarrow> open_tag d = L \<Longrightarrow>
                \<exists>g. pick d = Some g \<and> m (render_tag d @ R) = Some (g, length (render_tag d))"
    and other: "\<And>d. open_tag d \<noteq> L \<Longrightarrow> pick d = None"
    and wf: "list_all wf_item items"
  shows "finditer m (render_doc items) = List.map_filter pick (tags_of items) \<and>
         sub_empty m (render_doc items) = render_doc (filter (untagged pick) items)"
proof (rule scan_doc)
  fix c :: char and s
  assume "c \<noteq> CHR ''[''"
  then show "m (c # s) = None" using O literal_bracket [OF L] by blast
next
  fix d R
  assume t: "Tag d \<in> set items"
  then have w: "wf_tag d" using wf by (auto simp: list_all_iff wf_item_def)
  show "case pick d of
          Some g \<Rightarrow> m (render_tag d @ R) = Some (g, length (render_tag d))
        | None \<Rightarrow> finditer m (render_tag d @ R) = finditer m R \<and>
                  sub_empty m (render_tag d @ R) = render_tag d @ sub_empty m R"
  proof (cases "open_tag d = L")
    case True
    then show ?thesis using own [OF w t True, of R] by auto
  next
    case False
    then show ?thesis using scan_tag_other [of L m d R, OF O L w False] other [OF False] by simp
  qed
next
  fix p
  assume "Prose p \<in> set items"
  then show "no_open p" using wf by (auto simp: list_all_iff wf_item_def)
qed

lemma exec_doc:
  assumes wf: "list_all wf_item items" and nl: "dotall \<or> list_all one_line items"
  shows "finditer (exec_pattern dotall) (render_doc items) = List.map_filter pick_exec (tags_of items) \<and>
         sub_empty (exec_pattern dotall) (render_doc items) =
           render_doc (filter (untagged pick_exec) items)"
proof (rule pattern_doc [where L = "''[EXEC]''"])
  show "\<And>s. \<not> startswith s ''[EXEC]'' \<Longrightarrow> exec_pattern dotall s = None" by (rule exec_opening)
  show "''[EXEC]'' \<in> set opening_literals" by (simp add: opening_literals_def)
  show "list_all wf_item items" by (rule wf)
  show "\<And>d. open_tag d \<noteq> ''[EXEC]'' \<Longrightarrow> pick_exec d = None"
    by (simp add: open_tag_def pick_exec_def split: directive.splits)
next
  fix d R
  assume w: "wf_tag d" and t: "Tag d \<in> set items" and o: "open_tag d = ''[EXEC]''"
  obtain c where d: "d = Exec c" using o by (cases d) (simp_all add: open_tag_def)
  have "dotall \<or> CHR 0x0A \<notin> set c"
    using nl t by (auto simp: list_all_iff one_line_def d)
  then show "\<exists>g. pick_exec d = Some g \<and>
      exec_pattern dotall (render_tag d @ R) = Some (g, length (render_tag d))"
    using exec_match [of c dotall R] w by (simp add: d pick_exec_def wf_tag_def)
qed

lemma script_doc:
  assumes wf: "list_all wf_item items" and nl: "dotall \<or> list_all one_line items"
  shows "finditer (script_pattern dotall) (render_doc items) =
           List.map_filter pick_script (tags_of items) \<and>
         sub_empty (script_pattern dotall) (render_doc items) =
           render_doc (filter (untagged pick_script) items)"
proof (rule pattern_doc [where L = "''[SCRIPT''"])
  show "\<And>s. \<not> startswith s ''[SCRIPT'' \<Longrightarrow> script_pattern dotall s = None"
    by (rule script_opening)
  show "''[SCRIPT'' \<in> set opening_literals" by (simp add: opening_literals_def)
  show "list_all wf_item items" by (rule wf)
  show "\<And>d. open_tag d \<noteq> ''[SCRIPT'' \<Longrightarrow> pick_script d = None"
    by (simp add: open_tag_def pick_script_def split: directive.splits)
next
  fix d R
  assume w: "wf_tag d" and t: "Tag d \<in> set items" and o: "open_tag d = ''[SCRIPT''"
  obtain k n b where d: "d = Script k n b" using o by (cases d) (simp_all add: open_tag_def)
  have "dotall \<or> CHR 0x0A \<notin> set b"
    using nl t by (auto simp: list_all_iff one_line_def d)
  then show "\<exists>g. pick_script d = Some g \<and>
      script_pattern dotall (render_tag d @ R) = Some (g, length (render_tag d))"
    using script_match [of k n b dotall R] w by (simp add: d pick_script_def wf_tag_def)
qed

lemma template_doc:
  assumes wf: "list_all wf_item items"
  shows "finditer template_pattern (render_doc items) = List.map_filter pick_template (tags_of items) \<and>
         sub_empty template_pattern (render_doc items) =
           render_doc (filter (untagged pick_template) items)"
proof (rule pattern_doc [where L = "''[TEMPLATE''"])
  show "\<And>s. \<not> startswith s ''[TEMPLATE'' \<Longrightarrow> template_pattern s = None"
    by (rule template_opening)
  show "''[TEMPLATE'' \<in> set opening_literals" by (simp add: opening_literals_def)
  show "list_all wf_item items" by (rule wf)
  show "\<And>d. open_tag d \<noteq> ''[TEMPLATE'' \<Longrightarrow> pick_template d = None"
    by (simp add: open_tag_def pick_template_def split: directive.splits)
next
  fix d R
  assume w: "wf_tag d" and o: "open_tag d = ''[TEMPLATE''"
  obtain k n where d: "d = Template k n" using o by (cases d) (simp_all add: open_tag_def)
  show "\<exists>g. pick_template d = Some g \<and>
      template_pattern (render_tag d @ R) = Some (g, length (render_tag d))"
    using template_match [of k n R] w by (simp add: d pick_template_def wf_tag_def)
qed

lemma quickcmd_doc:
  assumes wf: "list_all wf_item items"
  shows "finditer quickcmd_pattern (render_doc items) = List.map_filter pick_quickcmd (tags_of items) \<and>
         sub_empty quickcmd_pattern (render_doc items) =
           render_doc (filter (untagged pick_quickcmd) items)"
proof (rule pattern_doc [where L = "''[QUICKCMD''"])
  show "\<And>s. \<not> startswith s ''[QUICKCMD'' \<Longrightarrow> quickcmd_pattern s = None"
    by (rule quickcmd_opening)
  show "''[QUICKCMD'' \<in> set opening_literals" by (simp add: opening_literals_def)
  show "list_all wf_item items" by (rule wf)
  show "\<And>d. open_tag d \<noteq> ''[QUICKCMD'' \<Longrightarrow> pick_quickcmd d = None"
    by (simp add: open_tag_def pick_quickcmd_def split: directive.splits)
next
  fix d R
  assume w: "wf_tag d" and o: "open_tag d = ''[QUICKCMD''"
  obtain n args where d: "d = QuickCommand n args" using o by (cases d) (simp_all add: open_tag_def)
  show "\<exists>g. pick_quickcmd d = Some g \<and>
      quickcmd_pattern (render_tag d @ R) = Some (g, length (render_tag d))"
    using quickcmd_match [of n args R] w by (simp add: d pick_quickcmd_def wf_tag_def)
qed

lemma devops_doc:
  assumes wf: "list_all wf_item items"
  shows "finditer devops_pattern (render_doc items) = List.map_filter pick_devops (tags_of items) \<and>
         sub_empty devops_pattern (render_doc items) =
           render_doc (filter (untagged pick_devops) items)"
proof (rule pattern_doc [where L = "''[DEVOPS''"])
  show "\<And>s. \<not> startswith s ''[DEVOPS'' \<Longrightarrow> devops_pattern s = None"
    by (rule devops_opening)
  show "''[DEVOPS'' \<in> set opening_literals" by (simp add: opening_literals_def)
  show "list_all wf_item items" by (rule wf)
  show "\<And>d. open_tag d \<noteq> ''[DEVOPS'' \<Longrightarrow> pick_devops d = None"
    by (simp add: open_tag_def pick_devops_def split: directive.splits)
next
  fix d R
  assume w: "wf_tag d" and o: "open_tag d = ''[DEVOPS''"
  obtain n args where d: "d = ToolCall n args" using o by (cases d) (simp_all add: open_tag_def)
  show "\<exists>g. pick_devops d = Some g \<and>
      devops_pattern (render_tag d @ R) = Some (g, length (render_tag d))"
    using devops_match [of n args R] w by (simp add: d pick_devops_def wf_tag_def)
qed


lemma split_from_run:
  "\<forall>c \<in> set a. \<not> is_space c \<Longrightarrow> split_from cur (a @ rest) = split_from (cur @ a) rest"
  by (induction a arbitrary: cur) simp_all

lemma split_from_spaced:
  "list_all plain_token as \<Longrightarrow> cur \<noteq> [] \<Longrightarrow> split_from cur (spaced as) = cur # as"
proof (induction as arbitrary: cur)
  case Nil
  then show ?case by (simp add: spaced_Nil)
next
  case (Cons b bs)
  have b: "plain_token b" and bs: "list_all plain_token bs" using Cons.prems(1) by simp_all
  have sp: "is_space CHR '' ''" by (simp add: is_space_def)
  have "split_from cur (spaced (b # bs)) = cur # split_from [] (b @ spaced bs)"
    using Cons.prems(2) sp by (simp add: spaced_Cons)
  also have "split_from [] (b @ spaced bs) = split_from b (spaced bs)"
    using split_from_run [of b "[]" "spaced bs"] plain_token_props(2) [OF b] by simp
  also have "\<dots> = b # bs" using Cons.IH [OF bs] plain_token_props(1) [OF b] by simp
  finally show ?case .
qed

lemma last_spaced:
  "list_all plain_token as \<Longrightarrow> as \<noteq> [] \<Longrightarrow> spaced as \<noteq> [] \<and> \<not> is_space (last (spaced as))"
proof (induction as)
  case Nil
  then show ?case by simp
next
  case (Cons b bs)
  have b: "plain_token b" and bs: "list_all plain_token bs" using Cons.prems(1) by simp_all
  show ?case
  proof (cases bs)
    case Nil
    then show ?thesis
      using plain_token_props(1,6) [OF b] by (simp add: spaced_Cons spaced_Nil)
  next
    case (Cons c cs)
    then show ?thesis using Cons.IH [OF bs] by (simp add: spaced_Cons)
  qed
qed

lemma split_args_group:
  assumes "list_all plain_token args"
  shows "split_args (args_group args) = args"
proof (cases args)
  case Nil
  then show ?thesis by (simp add: split_args_def args_group_def)
next
  case (Cons a as)
  have a: "plain_token a" and as: "list_all plain_token as" using assms Cons by simp_all
  let ?g = "a @ spaced as"
  have ne: "?g \<noteq> []" using plain_token_props(1) [OF a] by simp
  have h: "\<not> is_space (hd ?g)" using plain_token_props(1,5) [OF a] by simp
  have l: "\<not> is_space (last ?g)"
    using plain_token_props(6) [OF a] last_spaced [OF as] by (cases as) (simp_all add: spaced_Nil)
  have s: "strip ?g = ?g" using ne h l by (rule strip_id)
  have "split ?g = a # as"
    using split_from_run [of a "[]" "spaced as"] plain_token_props(1,2) [OF a]
      split_from_spaced [OF as, of a]
    by (simp add: split_def)
  then show ?thesis using ne by (simp add: Cons split_args_def args_group_def spaced_Cons s)
qed

lemma strip_word: "plain_word k \<Longrightarrow> strip k = k"
  using plain_word_props(1,3,4) by (intro strip_id) blast+

lemma strip_token: "plain_token n \<Longrightarrow> strip n = n"
  using plain_token_props(1,5,6) by (intro strip_id) blast+

lemma tags_wf: "list_all wf_item items \<Longrightarrow> list_all wf_tag (tags_of items)"
  by (induction items rule: tags_of.induct) (simp_all add: wf_item_def)

lemma exec_parsed:
  "map (\<lambda>body. Exec (strip body)) (List.map_filter pick_exec ds) = filter is_exec (map parsed ds)"
proof (induction ds)
  case Nil
  then show ?case by (simp add: List.map_filter_simps)
next
  case (Cons d ds)
  then show ?case
    by (cases d) (simp_all add: List.map_filter_simps pick_exec_def parsed_def is_exec_def)
qed

lemma script_parsed:
  "list_all wf_tag ds \<Longrightarrow>
   map (\<lambda>(kind, name, body). Script (strip kind) (strip name) (strip body))
     (List.map_filter pick_script ds) = filter is_script (map parsed ds)"
proof (induction ds)
  case Nil
  then show ?case by (simp add: List.map_filter_simps)
next
  case (Cons d ds)
  then show ?case
    by (cases d)
       (simp_all add: List.map_filter_simps pick_script_def parsed_def is_script_def wf_tag_def
          strip_word strip_token)
qed

lemma template_parsed:
  "list_all wf_tag ds \<Longrightarrow>
   map (\<lambda>(kind, name). Template (strip kind) (strip name)) (List.map_filter pick_template ds) =
     filter is_template (map parsed ds)"
proof (induction ds)
  case Nil
  then show ?case by (simp add: List.map_filter_simps)
next
  case (Cons d ds)
  then show ?case
    by (cases d)
       (simp_all add: List.map_filter_simps pick_template_def parsed_def is_template_def wf_tag_def
          strip_word strip_token)
qed

lemma quickcmd_parsed:
  "list_all wf_tag ds \<Longrightarrow>
   map (\<lambda>(name, g). QuickCommand (strip name) (split_args g)) (List.map_filter pick_quickcmd ds) =
     filter is_quickcmd (map parsed ds)"
proof (induction ds)
  case Nil
  then show ?case by (simp add: List.map_filter_simps)
next
  case (Cons d ds)
  then show ?case
    by (cases d)
       (simp_all add: List.map_filter_simps pick_quickcmd_def parsed_def is_quickcmd_def wf_tag_def
          strip_word split_args_group)
qed

lemma devops_parsed:
  "list_all wf_tag ds \<Longrightarrow>
   map (\<lambda>(name, g). ToolCall (strip name) (split_args g)) (List.map_filter pick_devops ds) =
     filter is_tool (map parsed ds)"
proof (induction ds)
  case Nil
  then show ?case by (simp add: List.map_filter_simps)
next
  case (Cons d ds)
  then show ?case
    by (cases d)
       (simp_all add: List.map_filter_simps pick_devops_def parsed_def is_tool_def wf_tag_def
          strip_word split_args_group)
qed

lemma directives_doc:
  assumes wf: "list_all wf_item items"
  shows "directives (render_doc items) = by_kind (map parsed (tags_of items))"
proof -
  have t: "list_all wf_tag (tags_of items)" using wf by (rule tags_wf)
  have e: "exec_directives (render_doc items) = filter is_exec (map parsed (tags_of items))"
    using exec_doc [OF wf, of True] by (simp add: exec_directives_def exec_parsed)
  have s: "script_directives (render_doc items) = filter is_script (map parsed (tags_of items))"
    using script_doc [OF wf, of True] script_parsed [OF t] by (simp add: script_directives_def)
  have tp: "template_directives (render_doc items) = filter is_template (map parsed (tags_of items))"
    using template_doc [OF wf] template_parsed [OF t] by (simp add: template_directives_def)
  have q: "quickcmd_directives (render_doc items) = filter is_quickcmd (map parsed (tags_of items))"
    using quickcmd_doc [OF wf] quickcmd_parsed [OF t] by (simp add: quickcmd_directives_def)
  have v: "devops_directives (render_doc items) = filter is_tool (map parsed (tags_of items))"
    using devops_doc [OF wf] devops_parsed [OF t] by (simp add: devops_directives_def)
  show ?thesis by (simp only: directives_def by_kind_def e s tp q v)
qed

lemma length_by_kind: "length (by_kind ds) = length ds"
proof (induction ds)
  case Nil
  then show ?case by (simp add: by_kind_def)
next
  case (Cons d ds)
  then show ?case
    by (cases d)
       (simp_all add: by_kind_def is_exec_def is_script_def is_template_def is_quickcmd_def
          is_tool_def)
qed

lemma filter_keeps:
  "list_all wf_item items \<Longrightarrow> list_all wf_item (filter P items)"
  "list_all one_line items \<Longrightarrow> list_all one_line (filter P items)"
  by (simp_all add: list_all_iff)

lemma all_tags_removed:
  "render_doc (filter (untagged pick_devops) (filter (untagged pick_quickcmd)
     (filter (untagged pick_template) (filter (untagged pick_script)
       (filter (untagged pick_exec) items))))) = prose_of items"
proof (induction items)
  case Nil
  then show ?case by simp
next
  case (Cons i items)
  show ?case
  proof (cases i)
    case (Prose p)
    then show ?thesis using Cons.IH by (simp add: untagged_simps)
  next
    case (Tag d)
    then show ?thesis
      using Cons.IH
      by (cases d)
         (simp_all add: untagged_simps pick_exec_def pick_script_def pick_template_def
            pick_quickcmd_def pick_devops_def)
  qed
qed

lemma prose_doc:
  assumes wf: "list_all wf_item items" and nl: "list_all one_line items"
  shows "prose (render_doc items) = strip (prose_of items)"
proof -
  let ?i1 = "filter (untagged pick_exec) items"
  let ?i2 = "filter (untagged pick_script) ?i1"
  let ?i3 = "filter (untagged pick_template) ?i2"
  let ?i4 = "filter (untagged pick_quickcmd) ?i3"
  let ?i5 = "filter (untagged pick_devops) ?i4"
  have s1: "sub_empty (exec_pattern False) (render_doc items) = render_doc ?i1"
    using exec_doc [OF wf, of False] nl by simp
  have w1: "list_all wf_item ?i1" "list_all one_line ?i1"
    using wf nl by (simp_all only: filter_keeps)
  have s2: "sub_empty (script_pattern False) (render_doc ?i1) = render_doc ?i2"
    using script_doc [OF w1(1), of False] w1(2) by simp
  have w2: "list_all wf_item ?i2" using w1(1) by (simp only: filter_keeps)
  have s3: "sub_empty template_pattern (render_doc ?i2) = render_doc ?i3"
    using template_doc [OF w2] by simp
  have w3: "list_all wf_item ?i3" using w2 by (simp only: filter_keeps)
  have s4: "sub_empty quickcmd_pattern (render_doc ?i3) = render_doc ?i4"
    using quickcmd_doc [OF w3] by simp
  have w4: "list_all wf_item ?i4" using w3 by (simp only: filter_keeps)
  have s5: "sub_empty devops_pattern (render_doc ?i4) = render_doc ?i5"
    using devops_doc [OF w4] by simp
  have "prose (render_doc items) = strip (render_doc ?i5)"
    by (simp only: prose_def Let_def s1 s2 s3 s4 s5)
  then show ?thesis by (simp only: all_tags_removed)
qed

lemma no_open_strip: "no_open s \<Longrightarrow> no_open (strip s)"
proof -
  have "set (strip s) \<subseteq> set s"
  proof
    fix x assume "x \<in> set (strip s)"
    then have "x \<in> set (dropWhile is_space (rev (dropWhile is_space s)))"
      by (simp add: strip_def)
    then have "x \<in> set (rev (dropWhile is_space s))" by (rule set_dropWhileD)
    then have "x \<in> set (dropWhile is_space s)" by simp
    then show "x \<in> set s" by (rule set_dropWhileD)
  qed
  then show "no_open s \<Longrightarrow> no_open (strip s)" by (auto simp: no_open_def list_ex_iff)
qed

lemma no_open_prose_of: "list_all wf_item items \<Longrightarrow> no_open (prose_of items)"
  by (induction items rule: prose_of.induct) (simp_all add: wf_item_def no_open_append, simp add: no_open_def)



lemma kind_rank_parsed: "kind_rank (parsed d) = kind_rank d"
  by (cases d) (simp_all add: kind_rank_def parsed_def)

lemma by_kind_sorted: "sorted (map kind_rank ds) \<Longrightarrow> by_kind ds = ds"
proof (induction ds)
  case Nil
  then show ?case by (simp add: by_kind_def)
next
  case (Cons d ds)
  then have ih: "by_kind ds = ds" and le: "\<forall>x \<in> set ds. kind_rank d \<le> kind_rank x"
    by simp_all
  show ?case
  proof (cases d)
    case (Exec c)
    then show ?thesis using ih
      by (simp add: by_kind_def is_exec_def is_script_def is_template_def is_quickcmd_def is_tool_def)
  next
    case (Script k n b)
    then have "\<forall>x \<in> set ds. \<not> is_exec x"
      using le by (auto simp: kind_rank_def is_exec_def split: directive.splits)
    then have e: "filter is_exec ds = []" by (simp add: filter_empty_conv)
    show ?thesis using ih Script
      by (simp add: by_kind_def e is_exec_def is_script_def is_template_def is_quickcmd_def is_tool_def)
  next
    case (Template k n)
    then have "\<forall>x \<in> set ds. \<not> is_exec x \<and> \<not> is_script x"
      using le by (auto simp: kind_rank_def is_exec_def is_script_def split: directive.splits)
    then have e: "filter is_exec ds = []" "filter is_script ds = []"
      by (simp_all add: filter_empty_conv)
    show ?thesis using ih Template
      by (simp add: by_kind_def e is_exec_def is_script_def is_template_def is_quickcmd_def is_tool_def)
  next
    case (QuickCommand n args)
    then have "\<forall>x \<in> set ds. \<not> is_exec x \<and> \<not> is_script x \<and> \<not> is_template x"
      using le
      by (auto simp: kind_rank_def is_exec_def is_script_def is_template_def split: directive.splits)
    then have e: "filter is_exec ds = []" "filter is_script ds = []" "filter is_template ds = []"
      by (simp_all add: filter_empty_conv)
    show ?thesis using ih QuickCommand
      by (simp add: by_kind_def e is_exec_def is_script_def is_template_def is_quickcmd_def is_tool_def)
  next
    case (ToolCall n args)
    then have "\<forall>x \<in> set ds. \<not> is_exec x \<and> \<not> is_script x \<and> \<not> is_template x \<and> \<not> is_quickcmd x"
      using le
      by (auto simp: kind_rank_def is_exec_def is_script_def is_template_def is_quickcmd_def
               split: directive.splits)
    then have e: "filter is_exec ds = []" "filter is_script ds = []" "filter is_template ds = []"
        "filter is_quickcmd ds = []"
      by (simp_all add: filter_empty_conv)
    show ?thesis using ih ToolCall
      by (simp add: by_kind_def e is_exec_def is_script_def is_template_def is_quickcmd_def is_tool_def)
  qed
qed

lemma run_process_not_current_dir:
  "run_process env cmd (a, w) = (r, a', w') \<Longrightarrow> r \<noteq> Inr (CurrentDir d)"
  by (auto simp: run_process_def Let_def split: proc_result.splits if_splits prod.splits)

lemma execute_command_current_dir:
  assumes res: "execute_command env c (a, w) = (Inr (CurrentDir d), a', w')"
  shows "current_dir a' = d"
proof (cases "startswith (strip (expand_alias (aliases (config a)) c)) ''cd ''")
  case True
  show ?thesis using cd_v05 [OF True res] by (auto simp: Let_def split: if_splits)
next
  case False
  let ?cmd = "expand_alias (aliases (config a)) c"
  obtain a2 w2 where rc: "record_command env ?cmd (a, log (LogInfo c) w) = (a2, w2)"
    by (cases "record_command env ?cmd (a, log (LogInfo c) w)") auto
  show ?thesis
  proof (cases "is_dangerous_command ?cmd")
    case (Inl e)
    then show ?thesis using res False rc by (simp add: execute_command_def Let_def)
  next
    case (Inr dangerous)
    show ?thesis
    proof (cases "dangerous \<and> \<not> confirm env (events w2) ?cmd")
      case True
      then show ?thesis using res False rc Inr by (simp add: execute_command_def Let_def)
    next
      case no: False
      have "\<exists>w3. run_process env ?cmd (a2, w3) = (Inr (CurrentDir d), a', w')"
        using res False rc Inr no by (auto simp: execute_command_def Let_def split: if_splits)
      then show ?thesis using run_process_not_current_dir by blast
    qed
  qed
qed

lemma process_response_doc:
  assumes "list_all wf_item items" and "list_all one_line items"
  shows "process_response env (render_doc items) s =
        (case run_directives env (by_kind (map parsed (tags_of items))) s of
           (Inl e, s') \<Rightarrow> (Inl e, s')
         | (Inr ms, s') \<Rightarrow> (Inr (ms, strip (prose_of items)), s'))"
  by (simp only: process_response_def directives_doc [OF assms(1)] prose_doc [OF assms])

lemma later_tag_first_directives:
  "directives ''[QUICKCMD wipe /a][EXEC]cd /tmp[/EXEC]'' =
     [Exec ''cd /tmp'', QuickCommand ''wipe'' [''/a'']]"
  by code_simp

lemma later_tag_first_events:
  "filter is_popen (events (snd (snd (process_response (example_env True)
      ''[QUICKCMD wipe /a][EXEC]cd /tmp[/EXEC]'' (example_agent_custom, example_world))))) =
     [Popen ''rm -rf /a'' ''/tmp'']"
  by code_simp



text \<open>
  A name with a hyphen is no word: the tag of the predefined quick command
  \<^verbatim>\<open>disk-usage\<close> is not found by the pattern for \<^verbatim>\<open>QUICKCMD\<close>.
\<close>

lemma hyphenated_name_not_found: "directives ''[QUICKCMD disk-usage]'' = []"
  by code_simp

text \<open>
  C2 (the claim as stated fails). The directives are not carried out in the order of their
  opening tags when the kinds are mixed: in a response with a \<^verbatim>\<open>QUICKCMD\<close> tag followed by
  an \<^verbatim>\<open>EXEC\<close> tag, the command of the \<^verbatim>\<open>EXEC\<close> tag comes first, and the quick command, written
  before the \<^verbatim>\<open>cd\<close>, runs in the directory that the \<^verbatim>\<open>cd\<close> has set.
\<close>

theorem mixed_kinds_order_counterexample:
  "directives ''[QUICKCMD wipe /a][EXEC]cd /tmp[/EXEC]'' =
     [Exec ''cd /tmp'', QuickCommand ''wipe'' [''/a'']] \<and>
   filter is_popen (events (snd (snd (process_response (example_env True)
      ''[QUICKCMD wipe /a][EXEC]cd /tmp[/EXEC]'' (example_agent_custom, example_world))))) =
     [Popen ''rm -rf /a'' ''/tmp'']"
  by (simp only: later_tag_first_directives later_tag_first_events)

text \<open>
  C2 (as amended). For a response written from well-formed parts with \<open>k\<close> tags, the parser
  yields exactly \<open>k\<close> directives: the tags grouped by kind, in the order \<^verbatim>\<open>EXEC\<close>, \<^verbatim>\<open>SCRIPT\<close>,
  \<^verbatim>\<open>TEMPLATE\<close>, \<^verbatim>\<open>QUICKCMD\<close>, \<^verbatim>\<open>DEVOPS\<close>, and in the order of the document within each kind;
  this is the order of the document when the tags of the response follow each other in
  this order of kinds, in particular when they are all of one kind. The directives are
  carried out in the order extracted, each from the state that the one before has left, so
  that after an \<^verbatim>\<open>EXEC\<close> directive that has changed the directory the directives after it
  run from a state whose tracked directory is the new one. When the bodies of the tags are
  on one line, the text returned is the prose of the parts, stripped; it holds no opening
  bracket and so none of the tags.
\<close>

theorem directives_by_kind:
  "(list_all wf_item items \<longrightarrow>
      directives (render_doc items) = by_kind (map parsed (tags_of items)) \<and>
      length (directives (render_doc items)) = length (tags_of items) \<and>
      (sorted (map kind_rank (tags_of items)) \<longrightarrow>
         directives (render_doc items) = map parsed (tags_of items))) \<and>
   (list_all wf_item items \<and> list_all one_line items \<longrightarrow>
      prose (render_doc items) = strip (prose_of items) \<and>
      no_open (prose (render_doc items)) \<and>
      process_response env (render_doc items) s =
        (case run_directives env (by_kind (map parsed (tags_of items))) s of
           (Inl e, s') \<Rightarrow> (Inl e, s')
         | (Inr ms, s') \<Rightarrow> (Inr (ms, strip (prose_of items)), s'))) \<and>
   (execute_command env c (a, w) = (Inr (CurrentDir d), a', w') \<longrightarrow>
      current_dir a' = d \<and>
      run_directives env (Exec c # ds) (a, w) =
        (case run_directives env ds (a', w') of
           (Inl e, s') \<Rightarrow> (Inl e, s')
         | (Inr ms, s') \<Rightarrow> (Inr (CurrentDir d # ms), s')))"
proof (intro conjI impI)
  assume wf: "list_all wf_item items"
  show d: "directives (render_doc items) = by_kind (map parsed (tags_of items))"
    using wf by (rule directives_doc)
  show "length (directives (render_doc items)) = length (tags_of items)"
    by (simp add: d length_by_kind)
  assume so: "sorted (map kind_rank (tags_of items))"
  have m: "map kind_rank (map parsed (tags_of items)) = map kind_rank (tags_of items)"
    by (simp add: kind_rank_parsed)
  have "sorted (map kind_rank (map parsed (tags_of items)))" using so by (simp only: m)
  then have "by_kind (map parsed (tags_of items)) = map parsed (tags_of items)"
    by (rule by_kind_sorted)
  then show "directives (render_doc items) = map parsed (tags_of items)" by (simp only: d)
next
  assume h: "list_all wf_item items \<and> list_all one_line items"
  show p: "prose (render_doc items) = strip (prose_of items)"
    using h by (simp add: prose_doc)
  show "no_open (prose (render_doc items))"
    using h by (simp add: p no_open_strip no_open_prose_of)
  show "process_response env (render_doc items) s =
        (case run_directives env (by_kind (map parsed (tags_of items))) s of
           (Inl e, s') \<Rightarrow> (Inl e, s')
         | (Inr ms, s') \<Rightarrow> (Inr (ms, strip (prose_of items)), s'))"
    using h by (simp add: process_response_doc)
next
  assume res: "execute_command env c (a, w) = (Inr (CurrentDir d), a', w')"
  show "current_dir a' = d" using res by (rule execute_command_current_dir)
  show "run_directives env (Exec c # ds) (a, w) =
        (case run_directives env ds (a', w') of
           (Inl e, s') \<Rightarrow> (Inl e, s')
         | (Inr ms, s') \<Rightarrow> (Inr (CurrentDir d # ms), s'))"
    by (simp add: res lift_result_def)
qed

theorem directives_by_kind_witness:
  "list_all wf_item example_items \<and> list_all one_line example_items \<and>
   sorted (map kind_rank (tags_of example_items)) \<and>
   render_doc example_items =
     ''Going up. [EXEC]cd ..[/EXEC] Then: [EXEC]pwd[/EXEC][TEMPLATE bash x.sh]'' \<and>
   directives ''Going up. [EXEC]cd ..[/EXEC] Then: [EXEC]pwd[/EXEC][TEMPLATE bash x.sh]'' =
     [Exec ''cd ..'', Exec ''pwd'', Template ''bash'' ''x.sh''] \<and>
   prose ''Going up. [EXEC]cd ..[/EXEC] Then: [EXEC]pwd[/EXEC][TEMPLATE bash x.sh]'' =
     ''Going up.  Then:'' \<and>
   fst (execute_command (example_env False) ''cd ..'' (example_agent, example_world)) =
     Inr (CurrentDir ''/a'') \<and>
   current_dir (fst (snd (execute_command (example_env False) ''cd ..''
     (example_agent, example_world)))) = ''/a'' \<and>
   filter is_popen (events (snd (snd (run_directives (example_env False)
     [Exec ''cd ..'', Exec ''pwd''] (example_agent, example_world))))) = [Popen ''pwd'' ''/a'']"
proof -
  let ?x = "execute_command (example_env False) ''cd ..'' (example_agent, example_world)"
  have wf: "list_all wf_item example_items" by code_simp
  have ol: "list_all one_line example_items" by code_simp
  have so: "sorted (map kind_rank (tags_of example_items))"
    by (simp add: example_items_def kind_rank_def)
  have rd: "render_doc example_items =
      ''Going up. [EXEC]cd ..[/EXEC] Then: [EXEC]pwd[/EXEC][TEMPLATE bash x.sh]''"
    by (simp add: example_items_def render_tag_def open_tag_def inner_def close_tag_def)
  have tg: "map parsed (tags_of example_items) = [Exec ''cd ..'', Exec ''pwd'', Template ''bash'' ''x.sh'']"
    by code_simp
  have pr: "strip (prose_of example_items) = ''Going up.  Then:''" by code_simp
  note t = directives_by_kind [where items = example_items and env = "example_env False"
      and c = "''cd ..''" and a = example_agent and w = example_world and d = "''/a''"
      and a' = "fst (snd ?x)" and w' = "snd (snd ?x)" and ds = "[Exec ''pwd'']"]
  have d0: "directives (render_doc example_items) = map parsed (tags_of example_items)"
    using t wf so by blast
  have d: "directives (render_doc example_items) = [Exec ''cd ..'', Exec ''pwd'', Template ''bash'' ''x.sh'']"
    by (simp only: d0 tg)
  have p0: "prose (render_doc example_items) = strip (prose_of example_items)"
    using t wf ol by blast
  have p: "prose (render_doc example_items) = ''Going up.  Then:''"
    by (simp only: p0 pr)
  have x: "?x = (Inr (CurrentDir ''/a''), fst (snd ?x), snd (snd ?x))"
    by (metis cd_up_result prod.collapse)
  have cd: "current_dir (fst (snd ?x)) = ''/a''"
    using t x by blast
  have ev: "filter is_popen (events (snd (snd (run_directives (example_env False)
     [Exec ''cd ..'', Exec ''pwd''] (example_agent, example_world))))) = [Popen ''pwd'' ''/a'']"
    by code_simp
  show ?thesis using wf ol so rd d p cd_up_result cd ev by (simp only: rd [symmetric])
qed





end
